theory Spec2Isabelle
  imports Main "HOL-Library.Char_ord" "HOL-Library.List_Lexorder"
begin

section \<open>JavaScript values used by the adapter\<close>

text \<open>
  The IndexedDB adapter of \<^verbatim>\<open>src/adapters/IDB.js\<close> handles a few kinds of JavaScript
  values: the argument of \<^verbatim>\<open>saveLastModified\<close>, values thrown by a batch, and the
  error objects of the engine. A string is a list of code units (a \<^typ>\<open>char\<close> stands for
  a code unit below 256). A number is an integer-valued double, given as the integer it
  is; doubles beyond the largest finite one (about \<open>1.8 * 10^308\<close>) are left out.
\<close>

datatype jsval =
    Undefined
  | Null
  | Num int
  | Str string
  | ErrObj string string  \<comment> \<open>an error object: its \<^verbatim>\<open>name\<close> and its \<^verbatim>\<open>message\<close>\<close>

definition digit_char :: "int \<Rightarrow> char" where
  "digit_char d = char_of (48 + d)"

text \<open>The decimal digits of a non-negative integer.\<close>

function digits :: "int \<Rightarrow> string" where
  "digits n = (if n < 10 then [digit_char n] else digits (n div 10) @ [digit_char (n mod 10)])"
  by pat_completeness auto
termination
  by (relation "measure nat") auto

declare digits.simps [simp del]

function bit_length :: "int \<Rightarrow> nat" where
  "bit_length n = (if n \<le> 0 then 0 else Suc (bit_length (n div 2)))"
  by pat_completeness auto
termination
  by (relation "measure nat") auto

declare bit_length.simps [simp del]

text \<open>
  The Number value of a non-negative integer: the nearest double, that is the integer
  rounded to 53 significant bits, ties to the even significand.
\<close>

definition to_double :: "int \<Rightarrow> int" where
  "to_double n =
     (if n < 2 ^ 53 then n
      else let e = bit_length n - 53;
               q = n div 2 ^ e;
               r = n mod 2 ^ e;
               h = 2 ^ (e - 1)
           in (if h < r \<or> (r = h \<and> odd q) then q + 1 else q) * 2 ^ e)"

text \<open>
  The digits that \<^verbatim>\<open>Number::toString\<close> prints for the double \<open>x\<close> of \<open>d\<close> decimal
  digits, as the integer they denote: with as few significant digits \<open>k\<close> as possible, a
  decimal whose Number value is \<open>x\<close>; of the two decimals of \<open>k\<close> digits next to \<open>x\<close>
  the closer one, the one of even last digit on a tie.
\<close>

function shortest_from :: "int \<Rightarrow> nat \<Rightarrow> nat \<Rightarrow> int" where
  "shortest_from x d k =
     (if d \<le> k then x
      else let e = d - k;
               lo = (x div 10 ^ e) * 10 ^ e;
               hi = lo + 10 ^ e;
               lo_ok = (to_double lo = x);
               hi_ok = (to_double hi = x)
           in if lo_ok \<and> hi_ok then
                (if x - lo < hi - x then lo
                 else if hi - x < x - lo then hi
                 else if even (x div 10 ^ e) then lo else hi)
              else if lo_ok then lo
              else if hi_ok then hi
              else shortest_from x d (Suc k))"
  by pat_completeness auto
termination
  by (relation "measure (\<lambda>(x, d, k). d - k)") auto

declare shortest_from.simps [simp del]

definition shortest :: "int \<Rightarrow> int" where
  "shortest x = shortest_from x (length (digits x)) 1"

text \<open>
  \<^verbatim>\<open>Number::toString\<close> on a non-negative integer-valued double: up to 21 digits the
  digits and their zeros, beyond that the first digit, the other significant digits
  after a point if there are any, and the exponent.
\<close>

definition number_to_string :: "int \<Rightarrow> string" where
  "number_to_string x =
     (let ds = digits (shortest x);
          n = length ds;
          s = rev (dropWhile (\<lambda>c. c = CHR ''0'') (rev ds))
      in if n \<le> 21 then ds
         else (if length s = 1 then s else hd s # CHR ''.'' # tl s) @ ''e+'' @ digits (int n - 1))"

text \<open>\<^verbatim>\<open>Number.prototype.toString\<close> on an integer-valued double.\<close>

definition int_to_string :: "int \<Rightarrow> string" where
  "int_to_string i =
     (if i < 0 then CHR ''-'' # number_to_string (- i) else number_to_string i)"

text \<open>The abstract operation \<^verbatim>\<open>ToString\<close>; an error object prints as
  \<^verbatim>\<open>Error.prototype.toString\<close> does.\<close>

fun js_toString :: "jsval \<Rightarrow> string" where
  "js_toString Undefined = ''undefined''"
| "js_toString Null = ''null''"
| "js_toString (Num i) = int_to_string i"
| "js_toString (Str s) = s"
| "js_toString (ErrObj n m) = (if n = [] then m else if m = [] then n else n @ '': '' @ m)"

text \<open>\<^verbatim>\<open>new Error(x)\<close>: the message is \<^verbatim>\<open>ToString(x)\<close>, or empty when \<^verbatim>\<open>x\<close> is undefined.\<close>

definition new_Error :: "jsval \<Rightarrow> jsval" where
  "new_Error x = ErrObj ''Error'' (if x = Undefined then [] else js_toString x)"

subsection \<open>\<^verbatim>\<open>parseInt(x, 10)\<close>\<close>

definition is_white_space :: "char \<Rightarrow> bool" where
  "is_white_space c = (of_char c \<in> {9, 10, 11, 12, 13, 32, 160 :: nat})"

definition is_digit :: "char \<Rightarrow> bool" where
  "is_digit c = (48 \<le> (of_char c :: nat) \<and> (of_char c :: nat) \<le> 57)"

definition digit_value :: "char \<Rightarrow> int" where
  "digit_value c = of_char c - 48"

definition digits_value :: "string \<Rightarrow> int" where
  "digits_value z = foldl (\<lambda>acc c. 10 * acc + digit_value c) 0 z"

text \<open>
  \<^verbatim>\<open>parseInt\<close> with radix 10: the argument is converted to a string, leading white space
  is dropped, a sign is read, and the longest prefix of decimal digits is read as an
  integer, whose Number value is the result; \<open>None\<close> is \<^verbatim>\<open>NaN\<close> (no digit). Beyond 20
  significant digits the engine may read the further digits as zeros; here they are read
  as they are.
\<close>

definition parseInt :: "jsval \<Rightarrow> int option" where
  "parseInt x =
     (let s = dropWhile is_white_space (js_toString x);
          negative = (s \<noteq> [] \<and> hd s = CHR ''-'');
          s' = (if s \<noteq> [] \<and> (hd s = CHR ''+'' \<or> hd s = CHR ''-'') then tl s else s);
          z = takeWhile is_digit s'
      in if z = [] then None
         else Some (if negative then - to_double (digits_value z)
                    else to_double (digits_value z)))"

text \<open>\<^verbatim>\<open>n || null\<close> on a number: \<^verbatim>\<open>NaN\<close> and \<^verbatim>\<open>0\<close> are falsy; \<open>None\<close> is \<^verbatim>\<open>null\<close>.\<close>

definition or_null :: "int option \<Rightarrow> int option" where
  "or_null p = (case p of None \<Rightarrow> None | Some n \<Rightarrow> if n = 0 then None else Some n)"

section \<open>The database and its connection\<close>

text \<open>
  A record has the mandatory key \<^verbatim>\<open>id\<close>, the two reserved fields \<^verbatim>\<open>_status\<close> and
  \<^verbatim>\<open>last_modified\<close> (\<open>None\<close> when the field is undefined) and further fields that the
  adapter never reads. The type \<open>'k\<close> of ids is a linear order: it stands for ids that
  are all numbers or all strings, on which the \<^verbatim>\<open>></\<close> of JavaScript and the key order of
  the engine are the same order.
\<close>

record 'k rcd =
  rid :: 'k
  status :: "string option"
  last_modified :: "int option"
  extra :: "(string \<times> string) list"

text \<open>
  The object store of the collection has the key path \<^verbatim>\<open>id\<close>: a list of entries in
  ascending key order, as a cursor walks them. The store \<^verbatim>\<open>__meta__\<close> has the key path
  \<^verbatim>\<open>name\<close>; an entry \<^verbatim>\<open>{name, value}\<close> is kept as its value, \<open>None\<close> for \<^verbatim>\<open>null\<close>.
  \<open>db_open\<close> says whether \<^verbatim>\<open>this._db\<close> holds a connection; the two stores persist
  when the connection is closed.
\<close>

type_synonym 'k store = "('k \<times> 'k rcd) list"

record 'k idb =
  db_open :: bool
  coll :: "'k store"
  meta :: "string \<rightharpoonup> int option"

text \<open>
  What the engine does to one call: nothing wrong, an error event of
  \<^verbatim>\<open>indexedDB.open\<close>, or an error event of the transaction. The value is
  \<^verbatim>\<open>event.target.error\<close>.
\<close>

datatype fault = NoFault | OpenFails jsval | TxFails jsval

text \<open>A settled promise: \<open>Inl\<close> is the rejection, \<open>Inr\<close> the resolution.\<close>

type_synonym 'a promise = "jsval + 'a"

text \<open>\<^verbatim>\<open>_handleError(method)\<close>: reading \<^verbatim>\<open>err.message\<close> of \<^verbatim>\<open>undefined\<close> or \<^verbatim>\<open>null\<close>
  throws a \<^verbatim>\<open>TypeError\<close> (whose text the engine chooses, left empty here); a value
  without that property gives \<^verbatim>\<open>undefined\<close>.\<close>

fun handleError :: "string \<Rightarrow> jsval \<Rightarrow> jsval" where
  "handleError method (ErrObj n m) = ErrObj ''Error'' (method @ ''() '' @ m)"
| "handleError method Undefined = ErrObj ''TypeError'' []"
| "handleError method Null = ErrObj ''TypeError'' []"
| "handleError method v = ErrObj ''Error'' (method @ ''() undefined'')"

text \<open>\<^verbatim>\<open>promise.catch(this._handleError(method))\<close>.\<close>

definition catch_handleError :: "string \<Rightarrow> 'a promise \<times> 's \<Rightarrow> 'a promise \<times> 's" where
  "catch_handleError method p =
     (case fst p of Inl err \<Rightarrow> (Inl (handleError method err), snd p) | Inr v \<Rightarrow> p)"

text \<open>\<^verbatim>\<open>open()\<close>: resolves at once when the connection exists, rejects with the raw error
  of the engine, or keeps the new connection.\<close>

definition idb_open :: "fault \<Rightarrow> 'k idb \<Rightarrow> unit promise \<times> 'k idb" where
  "idb_open f s =
     (if db_open s then (Inr (), s)
      else case f of
             OpenFails e \<Rightarrow> (Inl e, s)
           | _ \<Rightarrow> (Inr (), s\<lparr>db_open := True\<rparr>))"

text \<open>\<^verbatim>\<open>close()\<close>: drops the connection; \<^verbatim>\<open>super.close()\<close> of the base adapter resolves.\<close>

definition idb_close :: "'k idb \<Rightarrow> unit promise \<times> 'k idb" where
  "idb_close s = (Inr (), s\<lparr>db_open := False\<rparr>)"

section \<open>The metadata store\<close>

text \<open>
  \<^verbatim>\<open>saveLastModified\<close>: the value is \<^verbatim>\<open>parseInt(lastModified, 10) || null\<close>; the entry is
  put in a transaction of its own; an error of the transaction rejects with the raw
  error and writes nothing. No \<^verbatim>\<open>catch\<close> wraps the rejection.
\<close>

definition saveLastModified ::
  "jsval \<Rightarrow> fault \<Rightarrow> 'k idb \<Rightarrow> int option promise \<times> 'k idb" where
  "saveLastModified lastModified f s =
     (let v = or_null (parseInt lastModified) in
      case idb_open f s of
        (Inl e, s1) \<Rightarrow> (Inl e, s1)
      | (Inr _, s1) \<Rightarrow>
          (case f of
             TxFails e \<Rightarrow> (Inl e, s1)
           | _ \<Rightarrow> (Inr v, s1\<lparr>meta := (meta s1)(''lastModified'' \<mapsto> v)\<rparr>)))"

text \<open>\<^verbatim>\<open>getLastModified\<close>: \<^verbatim>\<open>request.result && request.result.value || null\<close>.\<close>

definition getLastModified :: "fault \<Rightarrow> 'k idb \<Rightarrow> int option promise \<times> 'k idb" where
  "getLastModified f s =
     (case idb_open f s of
        (Inl e, s1) \<Rightarrow> (Inl e, s1)
      | (Inr _, s1) \<Rightarrow>
          (case f of
             TxFails e \<Rightarrow> (Inl e, s1)
           | _ \<Rightarrow> (Inr (case meta s1 ''lastModified'' of
                          None \<Rightarrow> None
                        | Some v \<Rightarrow> or_null v), s1)))"

section \<open>The collection store and its indexes\<close>

text \<open>\<^verbatim>\<open>store.put(record)\<close>: insert, or overwrite the entry of the same key.\<close>

fun store_put :: "'k::linorder rcd \<Rightarrow> 'k store \<Rightarrow> 'k store" where
  "store_put r [] = [(rid r, r)]"
| "store_put r ((k, x) # s) =
     (if rid r < k then (rid r, r) # (k, x) # s
      else if rid r = k then (k, r) # s
      else (k, x) # store_put r s)"

text \<open>\<^verbatim>\<open>store.get(id)\<close>: the entry, or \<^verbatim>\<open>undefined\<close>.\<close>

definition store_get :: "'k \<Rightarrow> 'k store \<Rightarrow> 'k rcd option" where
  "store_get k s = map_of s k"

text \<open>\<^verbatim>\<open>store.add(record)\<close>: the request fails (\<open>None\<close>) when the key is present.\<close>

definition store_add :: "'k::linorder rcd \<Rightarrow> 'k store \<Rightarrow> 'k store option" where
  "store_add r s = (if store_get (rid r) s = None then Some (store_put r s) else None)"

text \<open>\<^verbatim>\<open>store.delete(id)\<close>.\<close>

definition store_delete :: "'k \<Rightarrow> 'k store \<Rightarrow> 'k store" where
  "store_delete k s = filter (\<lambda>e. fst e \<noteq> k) s"

text \<open>
  The three indexes made by \<^verbatim>\<open>onupgradeneeded\<close>. An index lists (key, record) in
  ascending key order, entries of one key in the order of their primary keys; a record
  whose indexed field is undefined has no entry.
\<close>

definition index_id :: "'k store \<Rightarrow> ('k \<times> 'k rcd) list" where
  "index_id s = s"

definition index_status :: "'k store \<Rightarrow> (string \<times> 'k rcd) list" where
  "index_status s =
     sort_key fst (List.map_filter (\<lambda>e. map_option (\<lambda>v. (v, snd e)) (status (snd e))) s)"

definition index_last_modified :: "'k store \<Rightarrow> (int \<times> 'k rcd) list" where
  "index_last_modified s =
     sort_key fst (List.map_filter (\<lambda>e. map_option (\<lambda>v. (v, snd e)) (last_modified (snd e))) s)"

section \<open>Cursor handlers\<close>

text \<open>
  A cursor is the list of the entries from its position on; the empty list is the
  \<^verbatim>\<open>null\<close> cursor of the last success event. Each function below is the handler together
  with the engine firing it again after each \<^verbatim>\<open>cursor.continue\<close>; its value is the argument
  of \<^verbatim>\<open>done\<close>.
\<close>

fun cursorHandlers_all :: "'r list \<Rightarrow> ('key \<times> 'r) list \<Rightarrow> 'r list" where
  "cursorHandlers_all results [] = results"
| "cursorHandlers_all results ((key, v) # rest) = cursorHandlers_all (results @ [v]) rest"

text \<open>\<^verbatim>\<open>[].slice.call(values).sort()\<close>: without a comparison function the elements are
  ordered by the code units of their \<^verbatim>\<open>ToString\<close>.\<close>

definition js_sort :: "('key \<Rightarrow> string) \<Rightarrow> 'key list \<Rightarrow> 'key list" where
  "js_sort toString values = sort_key toString values"

text \<open>\<^verbatim>\<open>sortedValues[i]\<close>, \<open>None\<close> for \<^verbatim>\<open>undefined\<close>.\<close>

definition nth_opt :: "'a list \<Rightarrow> nat \<Rightarrow> 'a option" where
  "nth_opt xs i = (if i < length xs then Some (xs ! i) else None)"

text \<open>
  The \<^verbatim>\<open>while (key > sortedValues[i])\<close> loop, from \<open>i\<close>: \<open>None\<close> when it reaches the end
  of the values and calls \<^verbatim>\<open>done\<close>, else the index it stops at. A comparison with
  \<^verbatim>\<open>undefined\<close> is false.
\<close>

function in_loop :: "'key::linorder \<Rightarrow> 'key list \<Rightarrow> nat \<Rightarrow> nat option" where
  "in_loop key sortedValues i =
     (case nth_opt sortedValues i of
        None \<Rightarrow> Some i
      | Some v \<Rightarrow>
          if key > v then
            (if Suc i = length sortedValues then None
             else in_loop key sortedValues (Suc i))
          else Some i)"
  by pat_completeness auto
termination
  by (relation "measure (\<lambda>(key, sortedValues, i). length sortedValues - i)")
    (auto simp: nth_opt_def split: if_splits)

declare in_loop.simps [simp del]

text \<open>\<^verbatim>\<open>cursor.continue(key)\<close> from an entry below \<open>key\<close>: the first later entry whose
  key is not below \<open>key\<close>.\<close>

definition cursor_continue_to :: "'key::linorder \<Rightarrow> ('key \<times> 'r) list \<Rightarrow> ('key \<times> 'r) list" where
  "cursor_continue_to k rest = dropWhile (\<lambda>e. fst e < k) rest"

text \<open>
  The handler of \<^verbatim>\<open>cursorHandlers.in\<close> over sorted values. In its last branch the key is
  neither above nor equal to \<^verbatim>\<open>sortedValues[i]\<close>, hence below it, as
  \<^verbatim>\<open>cursor.continue(key)\<close> requires; \<^verbatim>\<open>cursor.continue(undefined)\<close> is \<^verbatim>\<open>cursor.continue()\<close>.
\<close>

function in_handler ::
  "'key::linorder list \<Rightarrow> 'r list \<Rightarrow> ('key \<times> 'r) list \<Rightarrow> 'r list" where
  "in_handler sortedValues results [] = results"
| "in_handler sortedValues results ((key, v) # rest) =
     (case in_loop key sortedValues 0 of
        None \<Rightarrow> results
      | Some i \<Rightarrow>
          (case nth_opt sortedValues i of
             None \<Rightarrow> in_handler sortedValues results rest
           | Some t \<Rightarrow>
               if key = t then in_handler sortedValues (results @ [v]) rest
               else in_handler sortedValues results (cursor_continue_to t rest)))"
  by pat_completeness auto
termination
  by (relation "measure (\<lambda>(sortedValues, results, cursor). length cursor)")
    (auto simp: cursor_continue_to_def intro: le_imp_less_Suc length_dropWhile_le)

definition cursorHandlers_in ::
  "('key::linorder \<Rightarrow> string) \<Rightarrow> 'key list \<Rightarrow> ('key \<times> 'r) list \<Rightarrow> 'r list" where
  "cursorHandlers_in toString values cursor = in_handler (js_sort toString values) [] cursor"

text \<open>\<^verbatim>\<open>index.openCursor(IDBKeyRange.only(value))\<close>.\<close>

definition key_range_only :: "'key \<Rightarrow> ('key \<times> 'r) list \<Rightarrow> ('key \<times> 'r) list" where
  "key_range_only v idx = filter (\<lambda>e. fst e = v) idx"

section \<open>Listing records\<close>

text \<open>
  A filter set is the list of the entries of the \<^verbatim>\<open>filters\<close> object, in the order of
  \<^verbatim>\<open>Object.keys\<close>. The value of an entry is a scalar or an array, of the type of the
  field; \<open>FOther\<close> is a filter on a field outside \<open>INDEXED_FIELDS\<close>.
\<close>

datatype 'a fvalue = Scalar 'a | Array "'a list"

datatype 'k filter_entry =
    FId "'k fvalue"
  | FStatus "string fvalue"
  | FLastModified "int fvalue"
  | FOther string "string fvalue"

type_synonym 'k filters = "'k filter_entry list"

definition INDEXED_FIELDS :: "string list" where
  "INDEXED_FIELDS = [''id'', ''_status'', ''last_modified'']"

fun field_name :: "'k filter_entry \<Rightarrow> string" where
  "field_name (FId v) = ''id''"
| "field_name (FStatus v) = ''_status''"
| "field_name (FLastModified v) = ''last_modified''"
| "field_name (FOther n v) = n"

text \<open>\<^verbatim>\<open>findIndexedField\<close>: the first of the keys of the filters that is an indexed field,
  \<open>None\<close> for \<^verbatim>\<open>undefined\<close>.\<close>

definition findIndexedField :: "'k filters \<Rightarrow> string option" where
  "findIndexedField filters =
     (let filteredFields = map field_name filters;
          indexedFields = filter (\<lambda>field. field \<in> set INDEXED_FIELDS) filteredFields
      in case indexedFields of [] \<Rightarrow> None | field # _ \<Rightarrow> Some field)"

text \<open>A property key: \<^verbatim>\<open>undefined\<close> used as a key is the string \<^verbatim>\<open>"undefined"\<close>.\<close>

definition property_key :: "string option \<Rightarrow> string" where
  "property_key f = (case f of None \<Rightarrow> ''undefined'' | Some n \<Rightarrow> n)"

text \<open>\<^verbatim>\<open>filters[indexField]\<close>.\<close>

definition filters_lookup :: "'k filters \<Rightarrow> string option \<Rightarrow> 'k filter_entry option" where
  "filters_lookup filters f = find (\<lambda>e. field_name e = property_key f) filters"

text \<open>The two requests on an index: the \<^verbatim>\<open>in\<close> handler for an array, the \<^verbatim>\<open>all\<close>
  handler over the range of the one value otherwise.\<close>

definition index_request ::
  "('key::linorder \<Rightarrow> string) \<Rightarrow> ('key \<times> 'r) list \<Rightarrow> 'key fvalue \<Rightarrow> 'r list" where
  "index_request toString idx v =
     (case v of
        Array vs \<Rightarrow> cursorHandlers_in toString vs idx
      | Scalar x \<Rightarrow> cursorHandlers_all [] (key_range_only x idx))"

text \<open>
  \<^verbatim>\<open>createListRequest\<close>, with the cursor run to the call of \<^verbatim>\<open>done\<close>.
  \<^verbatim>\<open>store.index(indexField)\<close> is the index of the field of the value; the last case
  (an indexed name without a value of its field) is no filters object and is given no
  record.
\<close>

definition createListRequest ::
  "('k::linorder \<Rightarrow> string) \<Rightarrow> 'k store \<Rightarrow> string option \<Rightarrow> 'k filter_entry option
     \<Rightarrow> 'k rcd list" where
  "createListRequest toString store indexField v =
     (case indexField of
        None \<Rightarrow> cursorHandlers_all [] store
      | Some f \<Rightarrow>
          (case v of
             Some (FId x) \<Rightarrow> index_request toString (index_id store) x
           | Some (FStatus x) \<Rightarrow> index_request (\<lambda>s. s) (index_status store) x
           | Some (FLastModified x) \<Rightarrow>
               index_request int_to_string (index_last_modified store) x
           | _ \<Rightarrow> []))"

fun fvalue_matches :: "'a fvalue \<Rightarrow> 'a option \<Rightarrow> bool" where
  "fvalue_matches (Scalar x) field = (field = Some x)"
| "fvalue_matches (Array xs) field = (case field of None \<Rightarrow> False | Some y \<Rightarrow> List.member xs y)"

fun filter_matches :: "'k filter_entry \<Rightarrow> 'k rcd \<Rightarrow> bool" where
  "filter_matches (FId v) r = fvalue_matches v (Some (rid r))"
| "filter_matches (FStatus v) r = fvalue_matches v (status r)"
| "filter_matches (FLastModified v) r = fvalue_matches v (last_modified r)"
| "filter_matches (FOther n v) r = fvalue_matches v (map_of (extra r) n)"

text \<open>
  Modelled from the spec: \<^verbatim>\<open>reduceRecords\<close> of \<^verbatim>\<open>../utils\<close> is not among the sources. It
  applies the residual filters (equality for a scalar, membership for a collection) and
  then a stable sort by the requested order, here a ranking of the records; without an
  order the candidates keep their retrieval order.
\<close>

definition reduceRecords ::
  "'k filters \<Rightarrow> ('k rcd \<Rightarrow> int) option \<Rightarrow> 'k rcd list \<Rightarrow> 'k rcd list" where
  "reduceRecords filters order records =
     (let filtered = filter (\<lambda>r. list_all (\<lambda>f. filter_matches f r) filters) records
      in case order of None \<Rightarrow> filtered | Some rank \<Rightarrow> sort_key rank filtered)"

text \<open>
  \<^verbatim>\<open>list({filters, order})\<close>. The transaction is read-only; its error event rejects
  with \<^verbatim>\<open>new Error(event.target.error)\<close>. \<^verbatim>\<open>delete remainingFilters[indexField]\<close>
  removes the entry of that property key.
\<close>

definition list ::
  "('k::linorder \<Rightarrow> string) \<Rightarrow> 'k filters \<Rightarrow> ('k rcd \<Rightarrow> int) option \<Rightarrow> fault \<Rightarrow> 'k idb
     \<Rightarrow> 'k rcd list promise \<times> 'k idb" where
  "list toString filters order f s =
     (let indexField = findIndexedField filters;
          v = filters_lookup filters indexField
      in catch_handleError ''list''
          (case idb_open f s of
             (Inl e, s1) \<Rightarrow> (Inl e, s1)
           | (Inr _, s1) \<Rightarrow>
               (case f of
                  TxFails e \<Rightarrow> (Inl (new_Error e), s1)
                | _ \<Rightarrow>
                    (let results = createListRequest toString (coll s1) indexField v;
                         remainingFilters =
                           filter (\<lambda>e. field_name e \<noteq> property_key indexField) filters
                     in (Inr (reduceRecords remainingFilters order results), s1)))))"

section \<open>Reading one record, clearing the collection\<close>

definition get :: "'k \<Rightarrow> fault \<Rightarrow> 'k idb \<Rightarrow> 'k rcd option promise \<times> 'k idb" where
  "get k f s =
     catch_handleError ''get''
       (case idb_open f s of
          (Inl e, s1) \<Rightarrow> (Inl e, s1)
        | (Inr _, s1) \<Rightarrow>
            (case f of
               TxFails e \<Rightarrow> (Inl (new_Error e), s1)
             | _ \<Rightarrow> (Inr (store_get k (coll s1)), s1)))"

definition clear :: "fault \<Rightarrow> 'k idb \<Rightarrow> unit promise \<times> 'k idb" where
  "clear f s =
     catch_handleError ''clear''
       (case idb_open f s of
          (Inl e, s1) \<Rightarrow> (Inl e, s1)
        | (Inr _, s1) \<Rightarrow>
            (case f of
               TxFails e \<Rightarrow> (Inl (new_Error e), s1)
             | _ \<Rightarrow> (Inr (), s1\<lparr>coll := []\<rparr>)))"

section \<open>Executing a batch in one transaction\<close>

text \<open>
  What \<^verbatim>\<open>get\<close> of the proxy returns: \<^verbatim>\<open>undefined\<close>, a preloaded record, or another
  value (a property that the object of the preloaded records inherits).
\<close>

datatype 'k got = GotUndefined | GotRecord "'k rcd" | GotOther

text \<open>
  The callback is synchronous: all it sees of the database is \<^verbatim>\<open>get\<close> of the proxy, so
  it is a function from that \<^verbatim>\<open>get\<close> to the requests it issues through \<^verbatim>\<open>create\<close>,
  \<^verbatim>\<open>update\<close> and \<^verbatim>\<open>delete\<close>, in order, and the way it ends: it returns a value that is
  no promise, returns a promise, or throws.
\<close>

datatype 'k op = Create "'k rcd" | Update "'k rcd" | Delete 'k

datatype 'a outcome = Return 'a | ReturnPromise | Throw jsval

type_synonym ('k, 'a) batch = "('k \<Rightarrow> 'k got) \<Rightarrow> 'k op list \<times> 'a outcome"

text \<open>
  The object \<^verbatim>\<open>preloaded\<close> starts as \<^verbatim>\<open>{}\<close>: its own properties, under string keys,
  and its prototype when a record has been made its prototype (\<open>None\<close>:
  \<^verbatim>\<open>Object.prototype\<close>).
\<close>

record 'k jsobject =
  own :: "string \<rightharpoonup> 'k rcd"
  prototype :: "'k rcd option"

definition Object_prototype_names :: "string list" where
  "Object_prototype_names =
     [''constructor'', ''__defineGetter__'', ''__defineSetter__'', ''hasOwnProperty'',
      ''__lookupGetter__'', ''__lookupSetter__'', ''isPrototypeOf'',
      ''propertyIsEnumerable'', ''toString'', ''valueOf'', ''__proto__'',
      ''toLocaleString'']"

text \<open>The own properties of a record object.\<close>

definition has_property :: "'k rcd \<Rightarrow> string \<Rightarrow> bool" where
  "has_property r key =
     (key = ''id'' \<or> (key = ''_status'' \<and> status r \<noteq> None) \<or>
      (key = ''last_modified'' \<and> last_modified r \<noteq> None) \<or>
      List.member (map fst (extra r)) key)"

text \<open>
  \<^verbatim>\<open>acc[record.id] = record\<close>: the key is the string of the id; under the key
  \<^verbatim>\<open>__proto__\<close> the assignment runs the setter of \<^verbatim>\<open>Object.prototype\<close>, which makes the
  record the prototype of \<^verbatim>\<open>acc\<close>.
\<close>

definition object_set :: "('k \<Rightarrow> string) \<Rightarrow> 'k jsobject \<Rightarrow> 'k rcd \<Rightarrow> 'k jsobject" where
  "object_set toString acc record =
     (let key = toString (rid record)
      in if key = ''__proto__'' then acc\<lparr>prototype := Some record\<rparr>
         else acc\<lparr>own := (own acc)(key \<mapsto> record)\<rparr>)"

text \<open>\<^verbatim>\<open>records.reduce((acc, record) => { acc[record.id] = record; return acc; }, {})\<close>.\<close>

definition preloaded_of :: "('k \<Rightarrow> string) \<Rightarrow> 'k rcd list \<Rightarrow> 'k jsobject" where
  "preloaded_of toString records =
     foldl (object_set toString) \<lparr>own = Map.empty, prototype = None\<rparr> records"

text \<open>
  \<^verbatim>\<open>get\<close> of \<^verbatim>\<open>transactionProxy\<close>: \<^verbatim>\<open>preloaded[id]\<close>, looked up in the own properties,
  then in those of the prototype record, then in \<^verbatim>\<open>Object.prototype\<close>, where
  \<^verbatim>\<open>__proto__\<close> reads the prototype of \<^verbatim>\<open>preloaded\<close>.
\<close>

definition proxy_get :: "('k \<Rightarrow> string) \<Rightarrow> 'k jsobject \<Rightarrow> 'k \<Rightarrow> 'k got" where
  "proxy_get toString preloaded k =
     (let key = toString k
      in case own preloaded key of
           Some r \<Rightarrow> GotRecord r
         | None \<Rightarrow>
             (case prototype preloaded of
                Some p \<Rightarrow>
                  if has_property p key then GotOther
                  else if key = ''__proto__'' then GotRecord p
                  else if List.member Object_prototype_names key then GotOther
                  else GotUndefined
              | None \<Rightarrow>
                  if List.member Object_prototype_names key then GotOther
                  else GotUndefined))"

text \<open>
  One request of the proxy on the store. \<^verbatim>\<open>store.add\<close> of a present key fails with a
  \<^verbatim>\<open>ConstraintError\<close> (the engine chooses its text, left empty here), which aborts the
  transaction.
\<close>

fun apply_op :: "'k::linorder op \<Rightarrow> 'k store \<Rightarrow> jsval + 'k store" where
  "apply_op (Create r) s =
     (case store_add r s of None \<Rightarrow> Inl (ErrObj ''ConstraintError'' []) | Some s' \<Rightarrow> Inr s')"
| "apply_op (Update r) s = Inr (store_put r s)"
| "apply_op (Delete k) s = Inr (store_delete k s)"

fun apply_ops :: "'k::linorder op list \<Rightarrow> 'k store \<Rightarrow> jsval + 'k store" where
  "apply_ops [] s = Inr s"
| "apply_ops (x # xs) s = (case apply_op x s of Inl e \<Rightarrow> Inl e | Inr s' \<Rightarrow> apply_ops xs s')"

text \<open>The end of a transaction that was not aborted by the adapter: the error it
  reports (and then nothing is written), or the store it commits.\<close>

definition transaction_end :: "fault \<Rightarrow> 'k::linorder op list \<Rightarrow> 'k store \<Rightarrow> jsval + 'k store" where
  "transaction_end f ops s =
     (case apply_ops ops s of
        Inl e \<Rightarrow> Inl e
      | Inr s' \<Rightarrow> (case f of TxFails e \<Rightarrow> Inl e | _ \<Rightarrow> Inr s'))"

text \<open>
  \<^verbatim>\<open>execute(callback, {preload})\<close>. A throw of the callback aborts the transaction and
  rejects with the thrown value. A returned promise rejects at once, and the transaction
  goes on to its end. Otherwise the promise settles with the transaction:
  \<^verbatim>\<open>new Error(event.target.error)\<close> on its error, the result of the callback on
  \<^verbatim>\<open>complete\<close>. No \<^verbatim>\<open>catch\<close> wraps the rejection.
\<close>

definition execute ::
  "('k::linorder \<Rightarrow> string) \<Rightarrow> ('k, 'a) batch \<Rightarrow> 'k list \<Rightarrow> fault \<Rightarrow> 'k idb
     \<Rightarrow> 'a promise \<times> 'k idb" where
  "execute toString callback preload f s =
     (case idb_open f s of
        (Inl e, s1) \<Rightarrow> (Inl e, s1)
      | (Inr _, s1) \<Rightarrow>
          (let records = cursorHandlers_in toString preload (index_id (coll s1));
               preloaded = preloaded_of toString records;
               (ops, out) = callback (proxy_get toString preloaded)
           in case out of
                Throw e \<Rightarrow> (Inl e, s1)
              | ReturnPromise \<Rightarrow>
                  (Inl (new_Error (Str ''execute() callback should not return a Promise.'')),
                   case transaction_end f ops (coll s1) of
                     Inl e \<Rightarrow> s1
                   | Inr c \<Rightarrow> s1\<lparr>coll := c\<rparr>)
              | Return v \<Rightarrow>
                  (case transaction_end f ops (coll s1) of
                     Inl e \<Rightarrow> (Inl (new_Error e), s1)
                   | Inr c \<Rightarrow> (Inr v, s1\<lparr>coll := c\<rparr>))))"

section \<open>Loading a dump\<close>

text \<open>A number as \<^verbatim>\<open>Math.max\<close> gives it.\<close>

datatype jsnum = NaN | NegInfinity | Finite int

text \<open>\<^verbatim>\<open>Math.max(...xs)\<close> of the \<^verbatim>\<open>last_modified\<close> fields: \<^verbatim>\<open>-Infinity\<close> without
  argument, \<^verbatim>\<open>NaN\<close> when a field is undefined.\<close>

fun Math_max :: "int option list \<Rightarrow> jsnum" where
  "Math_max [] = NegInfinity"
| "Math_max (x # xs) =
     (case x of
        None \<Rightarrow> NaN
      | Some a \<Rightarrow>
          (case Math_max xs of
             NaN \<Rightarrow> NaN
           | NegInfinity \<Rightarrow> Finite a
           | Finite b \<Rightarrow> Finite (max a b)))"

text \<open>\<^verbatim>\<open>ToNumber\<close> of the stored value: \<^verbatim>\<open>null\<close> is \<open>0\<close>.\<close>

definition to_number :: "int option \<Rightarrow> int" where
  "to_number p = (case p of None \<Rightarrow> 0 | Some n \<Rightarrow> n)"

text \<open>\<^verbatim>\<open>lastModified > previousLastModified\<close>.\<close>

fun greater_than :: "jsnum \<Rightarrow> int option \<Rightarrow> bool" where
  "greater_than (Finite m) previous = (m > to_number previous)"
| "greater_than NaN previous = False"
| "greater_than NegInfinity previous = False"

text \<open>
  \<^verbatim>\<open>loadDump(records)\<close>: three transactions in sequence (the batch of updates, the
  read of the stored value, the write of the new one), each with what the engine does
  to it, and \<^verbatim>\<open>catch(this._handleError("loadDump"))\<close> at the end.
\<close>

text \<open>The argument \<^verbatim>\<open>lastModified\<close> of \<^verbatim>\<open>saveLastModified\<close>: a number that is no integer
  is given as the string that \<^verbatim>\<open>parseInt\<close> reads of it.\<close>

fun jsnum_value :: "jsnum \<Rightarrow> jsval" where
  "jsnum_value (Finite m) = Num m"
| "jsnum_value NaN = Str ''NaN''"
| "jsnum_value NegInfinity = Str ''-Infinity''"

definition loadDump ::
  "('k::linorder \<Rightarrow> string) \<Rightarrow> 'k rcd list \<Rightarrow> fault \<Rightarrow> fault \<Rightarrow> fault \<Rightarrow> 'k idb
     \<Rightarrow> 'k rcd list promise \<times> 'k idb" where
  "loadDump toString records f1 f2 f3 s =
     catch_handleError ''loadDump''
       (case execute toString (\<lambda>get. (map Update records, Return ())) [] f1 s of
          (Inl e, s1) \<Rightarrow> (Inl e, s1)
        | (Inr _, s1) \<Rightarrow>
            (case getLastModified f2 s1 of
               (Inl e, s2) \<Rightarrow> (Inl e, s2)
             | (Inr previousLastModified, s2) \<Rightarrow>
                 (let lastModified = Math_max (map last_modified records)
                  in if greater_than lastModified previousLastModified then
                       (case saveLastModified (jsnum_value lastModified) f3 s2 of
                          (Inl e, s3) \<Rightarrow> (Inl e, s3)
                        | (Inr _, s3) \<Rightarrow> (Inr records, s3))
                     else (Inr records, s2))))"

text \<open>The value of the entry \<^verbatim>\<open>lastModified\<close> of the metadata store, \<open>None\<close> when it is
  \<^verbatim>\<open>null\<close> or there is no entry.\<close>

definition stored_lastModified :: "'k idb \<Rightarrow> int option" where
  "stored_lastModified s = (case meta s ''lastModified'' of None \<Rightarrow> None | Some v \<Rightarrow> v)"

text \<open>The index choice in the words of the specification: the first of \<open>id\<close>,
  \<open>_status\<close>, \<open>last_modified\<close>, in that order, that the filter set names.\<close>

definition findIndexedField_by_priority :: "'k filters \<Rightarrow> string option" where
  "findIndexedField_by_priority filters =
     find (\<lambda>field. field \<in> set (map field_name filters)) INDEXED_FIELDS"

text \<open>Example databases: no record; the records of ids 9 and 10.\<close>

definition example_record :: "int \<Rightarrow> int rcd" where
  "example_record i =
     \<lparr>rid = i, status = Some ''synced'', last_modified = Some (100 + i), extra = []\<rparr>"

definition empty_db :: "int idb" where
  "empty_db = \<lparr>db_open = False, coll = [], meta = Map.empty\<rparr>"

definition example_db :: "int idb" where
  "example_db =
     \<lparr>db_open = False,
      coll = [(9, example_record 9), (10, example_record 10)],
      meta = [''lastModified'' \<mapsto> Some 109]\<rparr>"

text \<open>
  The invariant of the collection store: its entries are in strictly ascending key
  order, and the key of an entry is the \<^verbatim>\<open>id\<close> of its record (the key path).
\<close>

definition store_ok :: "'k::linorder store \<Rightarrow> bool" where
  "store_ok s = (sorted_wrt (<) (map fst s) \<and> list_all (\<lambda>e. rid (snd e) = fst e) s)"


section \<open>Decimal digits and \<^verbatim>\<open>parseInt\<close>\<close>

lemma of_char_digit_char: "0 \<le> d \<Longrightarrow> d < 10 \<Longrightarrow> (of_char (digit_char d) :: int) = 48 + d"
  by (simp add: digit_char_def)

lemma is_digit_digit_char: "0 \<le> d \<Longrightarrow> d < 10 \<Longrightarrow> is_digit (digit_char d)"
proof -
  assume d: "0 \<le> d" "d < 10"
  have "int (of_char (digit_char d)) = of_char (digit_char d)" by (rule of_nat_of_char)
  with of_char_digit_char [OF d] have "int (of_char (digit_char d)) = 48 + d" by simp
  with d show ?thesis unfolding is_digit_def by linarith
qed

lemma digit_value_digit_char: "0 \<le> d \<Longrightarrow> d < 10 \<Longrightarrow> digit_value (digit_char d) = d"
  by (simp add: digit_value_def of_char_digit_char)

lemma digits_not_Nil: "digits n \<noteq> []"
  by (subst digits.simps) simp

lemma digits_all_digit: "0 \<le> n \<Longrightarrow> c \<in> set (digits n) \<Longrightarrow> is_digit c"
proof (induction n arbitrary: c rule: digits.induct)
  case (1 n)
  show ?case
  proof (cases "n < 10")
    case True
    with "1.prems" show ?thesis
      by (subst (asm) digits.simps) (simp add: is_digit_digit_char)
  next
    case False
    with "1.prems" have "c \<in> set (digits (n div 10)) \<or> c = digit_char (n mod 10)"
      by (subst (asm) digits.simps) auto
    moreover have "0 \<le> n div 10" using "1.prems"(1) by simp
    ultimately show ?thesis
      using False "1.IH" by (auto simp: is_digit_digit_char)
  qed
qed

lemma digits_value_snoc: "digits_value (z @ [c]) = 10 * digits_value z + digit_value c"
  by (simp add: digits_value_def)

lemma digits_value_digits: "0 \<le> n \<Longrightarrow> digits_value (digits n) = n"
proof (induction n rule: digits.induct)
  case (1 n)
  show ?case
  proof (cases "n < 10")
    case True
    with "1.prems" show ?thesis
      by (subst digits.simps) (simp add: digits_value_def digit_value_digit_char)
  next
    case False
    with "1.IH" "1.prems" have "digits_value (digits (n div 10)) = n div 10" by simp
    with False show ?thesis
      by (subst digits.simps) (simp add: digits_value_snoc digit_value_digit_char)
  qed
qed

lemma is_digit_not_special:
  "is_digit c \<Longrightarrow> \<not> is_white_space c \<and> c \<noteq> CHR ''-'' \<and> c \<noteq> CHR ''+''"
  by (auto simp: is_digit_def is_white_space_def)

lemma hd_digits: "0 \<le> n \<Longrightarrow> is_digit (hd (digits n))"
  using digits_all_digit [of n "hd (digits n)"] digits_not_Nil [of n] by simp

lemma takeWhile_digits: "0 \<le> n \<Longrightarrow> takeWhile is_digit (digits n) = digits n"
  by (simp add: digits_all_digit)

lemma dropWhile_ws_digits: "0 \<le> n \<Longrightarrow> dropWhile is_white_space (digits n) = digits n"
  using hd_digits [of n] digits_not_Nil [of n] is_digit_not_special [of "hd (digits n)"]
  by (cases "digits n") auto

lemma not_ws_minus: "\<not> is_white_space CHR ''-''"
  by (simp add: is_white_space_def)

lemma parseInt_zero: "parseInt (Num 0) = Some 0"
  by code_simp



text \<open>From \<open>10^21\<close> on a number prints with an exponent, and \<^verbatim>\<open>parseInt\<close> reads its
  first digit.\<close>

lemma int_to_string_1e21: "int_to_string 1000000000000000000000 = ''1e+21''"
  by code_simp

lemma parseInt_1e21: "parseInt (Num 1000000000000000000000) = Some 1"
  by code_simp

lemma shortest_from_double:
  "to_double x = x \<Longrightarrow> to_double (shortest_from x d k) = x"
proof (induction x d k rule: shortest_from.induct)
  case (1 x d k)
  show ?case
  proof (cases "d \<le> k")
    case True
    with "1.prems" show ?thesis by (subst shortest_from.simps) simp
  next
    case False
    define e where "e = d - k"
    define lo where "lo = (x div 10 ^ e) * 10 ^ e"
    define hi where "hi = lo + 10 ^ e"
    show ?thesis
    proof (cases "to_double lo = x \<or> to_double hi = x")
      case True
      then show ?thesis
        using False
        by (subst shortest_from.simps) (auto simp: Let_def e_def lo_def hi_def)
    next
      case no: False
      then have "shortest_from x d k = shortest_from x d (Suc k)"
        using False
        by (subst shortest_from.simps) (simp add: Let_def e_def lo_def hi_def)
      moreover have "to_double (shortest_from x d (Suc k)) = x"
        using "1.IH" [OF False refl refl refl refl refl] no "1.prems"
        by (simp add: e_def lo_def hi_def)
      ultimately show ?thesis by simp
    qed
  qed
qed


lemma shortest_from_bounds:
  "0 \<le> x \<Longrightarrow> x < 10 ^ d \<Longrightarrow> 0 \<le> shortest_from x d k \<and> shortest_from x d k \<le> 10 ^ d"
proof (induction x d k rule: shortest_from.induct)
  case (1 x d k)
  show ?case
  proof (cases "d \<le> k")
    case True
    with "1.prems" show ?thesis by (subst shortest_from.simps, simp)+
  next
    case False
    define e where "e = d - k"
    define lo where "lo = (x div 10 ^ e) * 10 ^ e"
    define hi where "hi = lo + 10 ^ e"
    have pe: "(0::int) < 10 ^ e" by simp
    have lo0: "0 \<le> lo"
      using "1.prems"(1) pe by (simp add: lo_def pos_imp_zdiv_nonneg_iff)
    have decomp: "x = (x div 10 ^ e) * 10 ^ e + x mod 10 ^ e"
      by (rule div_mult_mod_eq [symmetric])
    have rem0: "0 \<le> x mod 10 ^ e" using pe by simp
    have lox: "lo \<le> x"
      unfolding lo_def using decomp rem0 by linarith
    have split: "(10::int) ^ d = 10 ^ (d - e) * 10 ^ e"
      using False by (simp add: e_def flip: power_add)
    have "x div 10 ^ e < 10 ^ (d - e)"
    proof (rule ccontr)
      assume "\<not> x div 10 ^ e < 10 ^ (d - e)"
      then have "(10::int) ^ (d - e) \<le> x div 10 ^ e" by simp
      then have "(10::int) ^ (d - e) * 10 ^ e \<le> (x div 10 ^ e) * 10 ^ e"
        by (rule mult_right_mono) simp
      with lox "1.prems"(2) show False
        unfolding lo_def split by linarith
    qed
    then have "x div 10 ^ e + 1 \<le> 10 ^ (d - e)" by simp
    then have "(x div 10 ^ e + 1) * 10 ^ e \<le> 10 ^ (d - e) * 10 ^ e"
      by (rule mult_right_mono) simp
    then have hid: "hi \<le> 10 ^ d"
      unfolding split hi_def lo_def by (simp add: algebra_simps)
    have hi0: "0 \<le> hi" using lo0 pe by (simp add: hi_def)
    have lod: "lo \<le> 10 ^ d" using lox "1.prems"(2) by simp
    have rec: "0 \<le> shortest_from x d (Suc k) \<and> shortest_from x d (Suc k) \<le> 10 ^ d"
      if "to_double lo \<noteq> x" "to_double hi \<noteq> x"
      using "1.IH" [OF False refl refl refl refl refl] that "1.prems"
      by (simp add: e_def lo_def hi_def)
    have "shortest_from x d k = lo \<or> shortest_from x d k = hi \<or>
        (to_double lo \<noteq> x \<and> to_double hi \<noteq> x \<and>
         shortest_from x d k = shortest_from x d (Suc k))"
      using False
      by (subst (1 2 3) shortest_from.simps) (auto simp: Let_def e_def lo_def hi_def)
    with lo0 lod hi0 hid rec show ?thesis by auto
  qed
qed

lemma less_power_length_digits: "0 \<le> n \<Longrightarrow> n < 10 ^ length (digits n)"
proof (induction n rule: digits.induct)
  case (1 n)
  show ?case
  proof (cases "n < 10")
    case True
    then show ?thesis by (subst digits.simps) simp
  next
    case False
    with "1.IH" "1.prems" have "n div 10 < 10 ^ length (digits (n div 10))" by simp
    then have "n < 10 * 10 ^ length (digits (n div 10))" by linarith
    with False show ?thesis by (subst digits.simps) simp
  qed
qed

lemma length_digits_le: "0 \<le> c \<Longrightarrow> c < 10 ^ n \<Longrightarrow> 0 < n \<Longrightarrow> length (digits c) \<le> n"
proof (induction c arbitrary: n rule: digits.induct)
  case (1 c)
  show ?case
  proof (cases "c < 10")
    case True
    with "1.prems" show ?thesis by (subst digits.simps) simp
  next
    case False
    from "1.prems" obtain m where n: "n = Suc m" by (cases n) auto
    with False "1.prems" have m0: "0 < m" by (cases m) auto
    from "1.prems"(2) n have "c div 10 < 10 ^ m" by simp
    with "1.IH" [OF False _ _ m0] "1.prems"(1) have "length (digits (c div 10)) \<le> m" by simp
    with False n show ?thesis by (subst digits.simps) simp
  qed
qed

lemma to_double_1e21: "to_double 1000000000000000000000 = 1000000000000000000000"
  by code_simp

lemma shortest_props:
  assumes x0: "0 \<le> x" and small: "x < 1000000000000000000000" and dbl: "to_double x = x"
  shows "0 \<le> shortest x \<and> to_double (shortest x) = x \<and> length (digits (shortest x)) \<le> 21"
proof -
  let ?d = "length (digits x)"
  have d21: "?d \<le> 21"
    using length_digits_le [OF x0, of 21] small by simp
  from shortest_from_bounds [OF x0 less_power_length_digits [OF x0], of 1]
  have c0: "0 \<le> shortest x" and cd: "shortest x \<le> 10 ^ ?d"
    by (simp_all add: shortest_def)
  have "(10::int) ^ ?d \<le> 10 ^ 21" using d21 by (rule power_increasing) simp
  moreover have "(10::int) ^ 21 = 1000000000000000000000" by simp
  ultimately have c21: "shortest x \<le> 1000000000000000000000" using cd by linarith
  have cdbl: "to_double (shortest x) = x"
    unfolding shortest_def by (rule shortest_from_double [OF dbl])
  have "shortest x \<noteq> 1000000000000000000000"
    using cdbl small to_double_1e21 by auto
  with c21 have "shortest x < 10 ^ 21" by simp
  from length_digits_le [OF c0 this] c0 cdbl show ?thesis by simp
qed

lemma parseInt_digits:
  "0 \<le> c \<Longrightarrow> parseInt (Str (digits c)) = Some (to_double c)"
proof -
  assume c0: "0 \<le> c"
  have "hd (digits c) \<noteq> CHR ''-''" "hd (digits c) \<noteq> CHR ''+''"
    using hd_digits [OF c0] is_digit_not_special by blast+
  with c0 show ?thesis
    by (simp add: parseInt_def dropWhile_ws_digits takeWhile_digits
        digits_not_Nil digits_value_digits Let_def)
qed

lemma parseInt_minus_digits:
  "0 \<le> c \<Longrightarrow> parseInt (Str (CHR ''-'' # digits c)) = Some (- to_double c)"
  by (simp add: parseInt_def not_ws_minus takeWhile_digits digits_not_Nil digits_value_digits)

text \<open>
  A double below \<open>10^21\<close> in magnitude goes through \<^verbatim>\<open>parseInt\<close> unchanged: the digits
  printed for it read back as the same double.
\<close>

lemma parseInt_Num:
  assumes small: "\<bar>i\<bar> < 1000000000000000000000" and dbl: "to_double \<bar>i\<bar> = \<bar>i\<bar>"
  shows "parseInt (Num i) = Some i"
proof (cases "i < 0")
  case False
  with small dbl have "0 \<le> i" "i < 1000000000000000000000" "to_double i = i" by simp_all
  from shortest_props [OF this] False show ?thesis
    using parseInt_digits [of "shortest i"]
    by (simp add: parseInt_def int_to_string_def number_to_string_def Let_def)
next
  case True
  with small dbl have "0 \<le> - i" "- i < 1000000000000000000000" "to_double (- i) = - i"
    by simp_all
  from shortest_props [OF this] True show ?thesis
    using parseInt_minus_digits [of "shortest (- i)"]
    by (simp add: parseInt_def int_to_string_def number_to_string_def Let_def)
qed

section \<open>The metadata store\<close>

lemma saveLastModified_NoFault:
  "saveLastModified v NoFault s =
     (Inr (or_null (parseInt v)),
      s\<lparr>db_open := True, meta := (meta s)(''lastModified'' \<mapsto> or_null (parseInt v))\<rparr>)"
  by (simp add: saveLastModified_def idb_open_def Let_def)

lemma getLastModified_NoFault:
  "getLastModified NoFault s =
     (Inr (case meta s ''lastModified'' of None \<Rightarrow> None | Some v \<Rightarrow> or_null v),
      s\<lparr>db_open := True\<rparr>)"
  by (simp add: getLastModified_def idb_open_def)

lemma or_null_idem: "or_null (or_null p) = or_null p"
  by (simp add: or_null_def split: option.splits)



text \<open>
  C10: when the engine reports no error, \<^verbatim>\<open>saveLastModified(0)\<close> writes \<^verbatim>\<open>null\<close> and
  resolves with \<^verbatim>\<open>null\<close>, and \<^verbatim>\<open>getLastModified()\<close> resolves with \<^verbatim>\<open>null\<close> when the value
  of the stored entry is \<open>0\<close> and when there is no entry.
\<close>

theorem lastModified_zero_is_null:
  "fst (saveLastModified (Num 0) NoFault s) = Inr None \<and>
   meta (snd (saveLastModified (Num 0) NoFault s)) ''lastModified'' = Some None \<and>
   (meta s ''lastModified'' = Some (Some 0) \<or> meta s ''lastModified'' = None
      \<longrightarrow> fst (getLastModified NoFault s) = Inr None)"
  by (auto simp: saveLastModified_NoFault getLastModified_NoFault parseInt_zero or_null_def)

theorem lastModified_zero_is_null_witness:
  "meta (empty_db\<lparr>meta := [''lastModified'' \<mapsto> Some 0]\<rparr>) ''lastModified'' = Some (Some 0) \<and>
   fst (getLastModified NoFault (empty_db\<lparr>meta := [''lastModified'' \<mapsto> Some 0]\<rparr>)) = Inr None"
  using lastModified_zero_is_null [of "empty_db\<lparr>meta := [''lastModified'' \<mapsto> Some 0]\<rparr>"]
  by simp

section \<open>Index selection\<close>

lemma first_of_filter:
  "(case filter P xs of [] \<Rightarrow> None | x # _ \<Rightarrow> Some x) = find P xs"
  by (induction xs) auto

lemma findIndexedField_find:
  "findIndexedField filters = find (\<lambda>field. field \<in> set INDEXED_FIELDS) (map field_name filters)"
  by (simp add: findIndexedField_def Let_def first_of_filter)

lemma find_map_field_name:
  "find P (map field_name filters) = map_option field_name (find (\<lambda>e. P (field_name e)) filters)"
  by (induction filters) auto

lemma find_same_name:
  "find (\<lambda>e. P (field_name e)) filters = Some e \<Longrightarrow>
   find (\<lambda>x. field_name x = field_name e) filters = Some e"
proof (induction filters)
  case Nil
  then show ?case by simp
next
  case (Cons a filters)
  show ?case
  proof (cases "P (field_name a)")
    case True
    with Cons.prems show ?thesis by simp
  next
    case False
    with Cons.prems have e: "find (\<lambda>e. P (field_name e)) filters = Some e" by simp
    then have "P (field_name e)" by (auto simp: find_Some_iff)
    with False have "field_name a \<noteq> field_name e" by auto
    with Cons.IH [OF e] show ?thesis by simp
  qed
qed

text \<open>
  C2, as stated, at the filter set \<^verbatim>\<open>{_status: "synced", id: 1}\<close>: the priority order of
  the specification picks \<open>id\<close>, the code picks \<open>_status\<close>, the first key of the filter
  set.
\<close>

theorem findIndexedField_status_before_id_counterexample:
  "findIndexedField [FStatus (Scalar ''synced''), FId (Scalar (1::int))] = Some ''_status'' \<and>
   findIndexedField_by_priority [FStatus (Scalar ''synced''), FId (Scalar (1::int))] = Some ''id''"
  by (simp add: findIndexedField_def findIndexedField_by_priority_def INDEXED_FIELDS_def)

text \<open>
  C2, amended: the index used is that of the first key of the filter set, in the order
  of the keys of the filter set, that is one of \<open>id\<close>, \<open>_status\<close>, \<open>last_modified\<close>;
  there is none exactly when no key of the filter set is indexed. One request is made,
  on that one index, with the value the filter set gives to that key, and all the other
  filters are left to \<^verbatim>\<open>reduceRecords\<close>.
\<close>

theorem findIndexedField_first_filter_key:
  "(findIndexedField filters = None \<longleftrightarrow>
      (\<forall>e \<in> set filters. field_name e \<notin> set INDEXED_FIELDS)) \<and>
   (findIndexedField filters = Some field \<longleftrightarrow>
      (\<exists>before e after. filters = before @ e # after \<and> field_name e = field \<and>
         field \<in> set INDEXED_FIELDS \<and>
         (\<forall>x \<in> set before. field_name x \<notin> set INDEXED_FIELDS))) \<and>
   (findIndexedField filters = Some field \<longrightarrow>
      (\<exists>e. find (\<lambda>x. field_name x \<in> set INDEXED_FIELDS) filters = Some e \<and>
           field_name e = field \<and>
           fst (list toString filters order NoFault s) =
             Inr (reduceRecords (filter (\<lambda>x. field_name x \<noteq> field) filters) order
                    (createListRequest toString (coll s) (Some field) (Some e)))))"
proof (intro conjI)
  show "findIndexedField filters = None \<longleftrightarrow>
      (\<forall>e \<in> set filters. field_name e \<notin> set INDEXED_FIELDS)"
    by (auto simp: findIndexedField_find find_None_iff)
  show "findIndexedField filters = Some field \<longleftrightarrow>
      (\<exists>before e after. filters = before @ e # after \<and> field_name e = field \<and>
         field \<in> set INDEXED_FIELDS \<and>
         (\<forall>x \<in> set before. field_name x \<notin> set INDEXED_FIELDS))"
    (is "?L \<longleftrightarrow> ?R")
  proof
    assume ?L
    then obtain e where e: "find (\<lambda>x. field_name x \<in> set INDEXED_FIELDS) filters = Some e"
      and n: "field_name e = field"
      by (auto simp: findIndexedField_find find_map_field_name)
    from e obtain i where i: "i < length filters" "filters ! i = e"
      "field_name e \<in> set INDEXED_FIELDS"
      "\<forall>j<i. field_name (filters ! j) \<notin> set INDEXED_FIELDS"
      by (auto simp: find_Some_iff)
    have "filters = take i filters @ e # drop (Suc i) filters"
      using id_take_nth_drop [OF i(1)] i(2) by simp
    moreover have "\<forall>x \<in> set (take i filters). field_name x \<notin> set INDEXED_FIELDS"
      using i(1,4) by (auto simp: in_set_conv_nth)
    ultimately show ?R using n i(3) by blast
  next
    assume ?R
    then obtain before e after where f: "filters = before @ e # after"
      and n: "field_name e = field" "field \<in> set INDEXED_FIELDS"
      and b: "\<forall>x \<in> set before. field_name x \<notin> set INDEXED_FIELDS"
      by blast
    have "find (\<lambda>x. field_name x \<in> set INDEXED_FIELDS) (before @ e # after) = Some e"
      using b n by (induction before) auto
    with f have "find (\<lambda>x. field_name x \<in> set INDEXED_FIELDS) filters = Some e"
      by simp
    with n show ?L
      by (simp only: findIndexedField_find find_map_field_name option.map)
  qed
  show "findIndexedField filters = Some field \<longrightarrow>
      (\<exists>e. find (\<lambda>x. field_name x \<in> set INDEXED_FIELDS) filters = Some e \<and>
           field_name e = field \<and>
           fst (list toString filters order NoFault s) =
             Inr (reduceRecords (filter (\<lambda>x. field_name x \<noteq> field) filters) order
                    (createListRequest toString (coll s) (Some field) (Some e))))"
  proof
    assume a: "findIndexedField filters = Some field"
    then obtain e where e: "find (\<lambda>x. field_name x \<in> set INDEXED_FIELDS) filters = Some e"
      and n: "field_name e = field"
      by (auto simp: findIndexedField_find find_map_field_name)
    from find_same_name [OF e] n
    have "filters_lookup filters (Some field) = Some e"
      by (simp add: filters_lookup_def property_key_def)
    then have "fst (list toString filters order NoFault s) =
             Inr (reduceRecords (filter (\<lambda>x. field_name x \<noteq> field) filters) order
                    (createListRequest toString (coll s) (Some field) (Some e)))"
      using a
      by (simp add: list_def Let_def idb_open_def catch_handleError_def property_key_def)
    with e n show "\<exists>e. find (\<lambda>x. field_name x \<in> set INDEXED_FIELDS) filters = Some e \<and>
           field_name e = field \<and>
           fst (list toString filters order NoFault s) =
             Inr (reduceRecords (filter (\<lambda>x. field_name x \<noteq> field) filters) order
                    (createListRequest toString (coll s) (Some field) (Some e)))"
      by blast
  qed
qed

theorem findIndexedField_first_filter_key_witness:
  "findIndexedField [FStatus (Scalar ''synced''), FId (Scalar (9::int))] = Some ''_status'' \<and>
   fst (list int_to_string [FStatus (Scalar ''synced''), FId (Scalar 9)] None NoFault example_db)
     = Inr [example_record 9]"
proof -
  have sel: "findIndexedField [FStatus (Scalar ''synced''), FId (Scalar (9::int))] = Some ''_status''"
    by (simp add: findIndexedField_def INDEXED_FIELDS_def)
  have ev: "reduceRecords [FId (Scalar 9)] None
       (createListRequest int_to_string (coll example_db) (Some ''_status'')
          (Some (FStatus (Scalar ''synced'')))) = [example_record 9]"
    by code_simp
  from sel ev show ?thesis
    using findIndexedField_first_filter_key
      [of "[FStatus (Scalar ''synced''), FId (Scalar (9::int))]" "''_status''"
          int_to_string None example_db]
    by (simp add: INDEXED_FIELDS_def)
qed


section \<open>Clearing the collection\<close>

lemma clear_NoFault: "clear NoFault s = (Inr (), s\<lparr>db_open := True, coll := []\<rparr>)"
  by (simp add: clear_def idb_open_def catch_handleError_def)

lemma reduceRecords_Nil: "reduceRecords filters order [] = []"
  by (simp add: reduceRecords_def split: option.splits)

text \<open>
  C9: when the engine reports no error, \<^verbatim>\<open>clear()\<close> leaves no record in the collection
  store and leaves the metadata store as it was, whatever the store held: afterwards
  \<^verbatim>\<open>list\<close> with the empty filter set resolves with the empty sequence and
  \<^verbatim>\<open>getLastModified()\<close> resolves with the value it had before.
\<close>

theorem clear_empties_collection_only:
  "coll (snd (clear NoFault s)) = [] \<and>
   meta (snd (clear NoFault s)) = meta s \<and>
   fst (list toString [] order NoFault (snd (clear NoFault s))) = Inr [] \<and>
   fst (getLastModified NoFault (snd (clear NoFault s))) = fst (getLastModified NoFault s)"
  by (simp add: clear_NoFault getLastModified_NoFault list_def Let_def idb_open_def
      catch_handleError_def findIndexedField_def createListRequest_def reduceRecords_Nil)

text \<open>Scenario D on the example database, which holds two records.\<close>

lemma clear_example:
  "coll example_db \<noteq> [] \<and>
   fst (clear NoFault example_db) = Inr () \<and>
   fst (list int_to_string [] None NoFault (snd (clear NoFault example_db))) = Inr [] \<and>
   fst (getLastModified NoFault (snd (clear NoFault example_db))) = Inr (Some 109)"
  by (simp add: clear_NoFault getLastModified_NoFault list_def Let_def idb_open_def
      catch_handleError_def findIndexedField_def createListRequest_def reduceRecords_Nil
      example_db_def or_null_def)

section \<open>The merge-join of \<^verbatim>\<open>cursorHandlers.in\<close>\<close>

text \<open>
  C1, at the store of the records of ids \<open>9\<close> and \<open>10\<close> and the filter
  \<^verbatim>\<open>{id: [9, 10]}\<close>: \<^verbatim>\<open>sort()\<close> orders the values by their strings, \<open>[10, 9]\<close>; at the
  key \<open>9\<close> the cursor is sent on to \<open>10\<close>, and the record of id \<open>9\<close> is never
  collected. \<^verbatim>\<open>list\<close> resolves with the record of id \<open>10\<close> alone.
\<close>

theorem list_in_misses_numeric_id:
  "store_get 9 (coll example_db) = Some (example_record 9) \<and>
   store_get 10 (coll example_db) = Some (example_record 10) \<and>
   js_sort int_to_string [9, 10] = [10, 9] \<and>
   fst (list int_to_string [FId (Array [9, 10])] None NoFault example_db)
     = Inr [example_record 10]"
  by code_simp

text \<open>
  C5, at the same store with \<^verbatim>\<open>preload: [9, 10]\<close>: the preloading misses the record of
  id \<open>9\<close> in the same way, and \<^verbatim>\<open>get(9)\<close> of the proxy is \<^verbatim>\<open>undefined\<close> although \<open>9\<close>
  is in the preload list and in the store.
\<close>

theorem execute_get_misses_preloaded_numeric_id:
  "store_get 9 (coll example_db) = Some (example_record 9) \<and>
   fst (execute int_to_string (\<lambda>get. ([], Return (get 9, get 10))) [9, 10] NoFault example_db)
     = Inr (GotUndefined, GotRecord (example_record 10))"
  by code_simp

section \<open>Atomicity of a batch\<close>

lemma idb_open_ok_cases:
  "fst (idb_open f s) = Inr () \<Longrightarrow> idb_open f s = (Inr (), s\<lparr>db_open := True\<rparr>)"
  by (cases s) (auto simp: idb_open_def split: if_splits fault.splits)

lemma get_NoFault: "get k NoFault s = (Inr (store_get k (coll s)), s\<lparr>db_open := True\<rparr>)"
  by (simp add: get_def idb_open_def catch_handleError_def)

lemma list_NoFault_coll:
  "coll s' = coll s \<Longrightarrow>
   fst (list toString filters order NoFault s') = fst (list toString filters order NoFault s)"
  by (simp add: list_def Let_def idb_open_def catch_handleError_def)

text \<open>
  C4: when \<^verbatim>\<open>open()\<close> succeeds and the batch throws \<open>e\<close> after issuing the requests
  \<open>ops\<close>, the transaction is aborted: \<^verbatim>\<open>execute\<close> rejects with \<open>e\<close>, the collection
  and the metadata are what they were, and a later \<^verbatim>\<open>get\<close> or \<^verbatim>\<open>list\<close> resolves as it
  would have before.
\<close>

theorem execute_throw_is_atomic:
  assumes opened: "fst (idb_open f s) = Inr ()"
    and throws: "callback (proxy_get toString (preloaded_of toString
                   (cursorHandlers_in toString preload (index_id (coll s))))) = (ops, Throw e)"
  shows "fst (execute toString callback preload f s) = Inl e \<and>
     coll (snd (execute toString callback preload f s)) = coll s \<and>
     meta (snd (execute toString callback preload f s)) = meta s \<and>
     fst (get k NoFault (snd (execute toString callback preload f s))) = fst (get k NoFault s) \<and>
     fst (list toString filters order NoFault (snd (execute toString callback preload f s)))
       = fst (list toString filters order NoFault s)"
proof -
  have ex: "execute toString callback preload f s = (Inl e, s\<lparr>db_open := True\<rparr>)"
    using throws by (simp add: execute_def idb_open_ok_cases [OF opened] Let_def)
  have "fst (list toString filters order NoFault (s\<lparr>db_open := True\<rparr>))
       = fst (list toString filters order NoFault s)"
    by (rule list_NoFault_coll) simp
  then show ?thesis
    by (simp add: ex get_NoFault)
qed

theorem execute_throw_is_atomic_witness:
  "fst (execute int_to_string
         (\<lambda>get. ([Create (example_record 1), Update (example_record 9), Delete 10],
                  Throw (Str ''boom'') :: unit outcome))
         [9] NoFault example_db) = Inl (Str ''boom'') \<and>
   fst (get 10 NoFault (snd (execute int_to_string
         (\<lambda>get. ([Create (example_record 1), Update (example_record 9), Delete 10],
                  Throw (Str ''boom'') :: unit outcome))
         [9] NoFault example_db))) = Inr (Some (example_record 10)) \<and>
   apply_ops [Create (example_record 1), Update (example_record 9), Delete 10]
         (coll example_db) \<noteq> Inr (coll example_db)"
proof -
  have o: "fst (idb_open NoFault example_db) = Inr ()"
    by (simp add: idb_open_def)
  have g: "fst (get 10 NoFault example_db) = Inr (Some (example_record 10))"
    by (simp add: get_NoFault example_db_def store_get_def)
  have a: "apply_ops [Create (example_record 1), Update (example_record 9), Delete 10]
         (coll example_db) \<noteq> Inr (coll example_db)"
    by code_simp
  have t: "(\<lambda>get. ([Create (example_record 1), Update (example_record 9), Delete 10],
                  Throw (Str ''boom'') :: unit outcome))
      (proxy_get int_to_string (preloaded_of int_to_string (cursorHandlers_in int_to_string [9] (index_id (coll example_db)))))
      = ([Create (example_record 1), Update (example_record 9), Delete 10], Throw (Str ''boom''))"
    by simp
  from execute_throw_is_atomic [OF o t, where k = 10] g a show ?thesis
    by simp
qed

section \<open>A batch that returns a promise\<close>

text \<open>
  C7, as stated, at a batch that deletes the record of id \<open>9\<close> and returns a promise:
  the rejection is a plain \<^verbatim>\<open>Error\<close> whose message is
  \<^verbatim>\<open>execute() callback should not return a Promise.\<close>, not an \<^verbatim>\<open>InvalidUsageError\<close> with
  the message of the claim, and the deletion is committed.
\<close>

theorem execute_promise_counterexample:
  "fst (execute int_to_string (\<lambda>get. ([Delete 9], ReturnPromise :: unit outcome)) [] NoFault
          example_db)
     = Inl (ErrObj ''Error'' ''execute() callback should not return a Promise.'') \<and>
   fst (execute int_to_string (\<lambda>get. ([Delete 9], ReturnPromise :: unit outcome)) [] NoFault
          example_db)
     \<noteq> Inl (ErrObj ''InvalidUsageError''
              ''execute() callback should not return a pending value'') \<and>
   coll (snd (execute int_to_string (\<lambda>get. ([Delete 9], ReturnPromise :: unit outcome)) []
          NoFault example_db))
     = [(10, example_record 10)]"
  by code_simp

text \<open>
  C7, amended: when \<^verbatim>\<open>open()\<close> succeeds and the batch returns a promise, \<^verbatim>\<open>execute\<close>
  rejects with an \<^verbatim>\<open>Error\<close> carrying the message
  \<^verbatim>\<open>execute() callback should not return a Promise.\<close>, whatever the requests of the batch
  and whatever the engine does to the transaction.
\<close>

theorem execute_promise_rejects:
  assumes opened: "fst (idb_open f s) = Inr ()"
    and promise: "snd (callback (proxy_get toString (preloaded_of toString
                   (cursorHandlers_in toString preload (index_id (coll s)))))) = ReturnPromise"
  shows "fst (execute toString callback preload f s)
     = Inl (ErrObj ''Error'' ''execute() callback should not return a Promise.'')"
proof -
  obtain ops where "callback (proxy_get toString (preloaded_of toString
      (cursorHandlers_in toString preload (index_id (coll s))))) = (ops, ReturnPromise)"
    using promise by (metis prod.collapse)
  then show ?thesis
    by (simp add: execute_def idb_open_ok_cases [OF opened] Let_def new_Error_def)
qed

theorem execute_promise_rejects_witness:
  "fst (execute int_to_string (\<lambda>get. ([Delete 9], ReturnPromise :: unit outcome)) [] NoFault
          example_db)
     = Inl (ErrObj ''Error'' ''execute() callback should not return a Promise.'')"
proof -
  have o: "fst (idb_open NoFault example_db) = Inr ()"
    by (simp add: idb_open_def)
  have p: "snd ((\<lambda>get. ([Delete 9], ReturnPromise :: unit outcome))
      (proxy_get int_to_string (preloaded_of int_to_string (cursorHandlers_in int_to_string [] (index_id (coll example_db))))))
      = ReturnPromise"
    by simp
  from execute_promise_rejects [OF o p] show ?thesis .
qed

section \<open>Loading a dump\<close>

lemma snd_catch_handleError: "snd (catch_handleError operation p) = snd p"
  by (simp add: catch_handleError_def split: sum.splits)

lemma meta_idb_open: "idb_open f s = (r, s1) \<Longrightarrow> meta s1 = meta s \<and> coll s1 = coll s"
  by (auto simp: idb_open_def split: if_splits fault.splits)

lemma meta_execute: "meta (snd (execute toString callback preload f s)) = meta s"
proof -
  obtain r s1 where o: "idb_open f s = (r, s1)" by (cases "idb_open f s")
  from meta_idb_open [OF o] have m: "meta s1 = meta s" by simp
  obtain ops out where c: "callback (proxy_get toString (preloaded_of toString
      (cursorHandlers_in toString preload (index_id (coll s1))))) = (ops, out)"
    by (cases "callback (proxy_get toString (preloaded_of toString
      (cursorHandlers_in toString preload (index_id (coll s1)))))")
  show ?thesis
    using m by (simp add: execute_def o c Let_def split: sum.splits outcome.splits)
qed

lemma getLastModified_result:
  "getLastModified f s = (r, s1) \<Longrightarrow>
   meta s1 = meta s \<and> (\<forall>p. r = Inr p \<longrightarrow> to_number p = to_number (stored_lastModified s))"
proof -
  assume g: "getLastModified f s = (r, s1)"
  obtain r0 s0 where o: "idb_open f s = (r0, s0)" by (cases "idb_open f s")
  from meta_idb_open [OF o] have m: "meta s0 = meta s" by simp
  from g m show ?thesis
    by (auto simp: getLastModified_def o stored_lastModified_def to_number_def or_null_def
        split: sum.splits fault.splits option.splits if_splits)
qed

lemma saveLastModified_meta:
  "saveLastModified v f s = (r, s1) \<Longrightarrow>
   meta s1 = meta s \<or> meta s1 = (meta s)(''lastModified'' \<mapsto> or_null (parseInt v))"
proof -
  assume g: "saveLastModified v f s = (r, s1)"
  obtain r0 s0 where o: "idb_open f s = (r0, s0)" by (cases "idb_open f s")
  from meta_idb_open [OF o] have m: "meta s0 = meta s" by simp
  from g m show ?thesis
    by (auto simp: saveLastModified_def o Let_def split: sum.splits fault.splits)
qed

lemma greater_than_Finite:
  "greater_than x p \<Longrightarrow> \<exists>m. x = Finite m \<and> m > to_number p"
  by (cases x) auto

lemma Math_max_Finite:
  "Math_max xs = Finite m \<Longrightarrow> Some m \<in> set xs \<and> (\<forall>x \<in> set xs. \<exists>a. x = Some a \<and> a \<le> m)"
proof (induction xs arbitrary: m)
  case Nil
  then show ?case by simp
next
  case (Cons x xs)
  then obtain a where a: "x = Some a" by (cases x) auto
  show ?case
  proof (cases "Math_max xs")
    case NaN
    with Cons.prems a show ?thesis by simp
  next
    case NegInfinity
    then have "xs = []" by (cases xs) (auto split: option.splits jsnum.splits)
    with Cons.prems a show ?thesis by simp
  next
    case (Finite b)
    from Cons.IH [OF Finite] Cons.prems a Finite show ?thesis
      by (auto simp: max_def split: if_splits) 
  qed
qed

lemma apply_ops_updates: "\<exists>c'. apply_ops (map Update records) c = Inr c'"
  by (induction records arbitrary: c) auto

lemma loadDump_meta:
  "meta (snd (loadDump toString records f1 f2 f3 s)) = meta s \<or>
   (\<exists>m. Math_max (map last_modified records) = Finite m \<and>
        m > to_number (stored_lastModified s) \<and>
        meta (snd (loadDump toString records f1 f2 f3 s))
          = (meta s)(''lastModified'' \<mapsto> or_null (parseInt (Num m))))"
proof -
  obtain r1 s1 where e: "execute toString (\<lambda>get. (map Update records, Return ())) [] f1 s = (r1, s1)"
    by (cases "execute toString (\<lambda>get. (map Update records, Return ())) [] f1 s")
  have m1: "meta s1 = meta s"
    using meta_execute [of toString "\<lambda>get. (map Update records, Return ())" "[]" f1 s] e by simp
  obtain r2 s2 where g: "getLastModified f2 s1 = (r2, s2)" by (cases "getLastModified f2 s1")
  from getLastModified_result [OF g] m1
  have m2: "meta s2 = meta s"
    and p2: "\<And>p. r2 = Inr p \<Longrightarrow> to_number p = to_number (stored_lastModified s)"
    by (auto simp: stored_lastModified_def)
  show ?thesis
  proof (cases r1)
    case (Inl err)
    then show ?thesis
      by (simp add: loadDump_def e snd_catch_handleError m1)
  next
    case r1: (Inr u)
    show ?thesis
    proof (cases r2)
      case (Inl err)
      then show ?thesis
        by (simp add: loadDump_def e g r1 snd_catch_handleError m2)
    next
      case r2: (Inr p)
      show ?thesis
      proof (cases "greater_than (Math_max (map last_modified records)) p")
        case False
        then show ?thesis
          by (simp add: loadDump_def e g r1 r2 snd_catch_handleError m2 Let_def)
      next
        case True
        from greater_than_Finite [OF True] p2 [OF r2]
        obtain m where mm: "Math_max (map last_modified records) = Finite m"
          and gt: "m > to_number (stored_lastModified s)"
          by auto
        obtain r3 s3 where sv: "saveLastModified (Num m) f3 s2 = (r3, s3)"
          by (cases "saveLastModified (Num m) f3 s2")
        from saveLastModified_meta [OF sv] m2
        have m3: "meta s3 = meta s \<or>
            meta s3 = (meta s)(''lastModified'' \<mapsto> or_null (parseInt (Num m)))"
          by simp
        have "snd (loadDump toString records f1 f2 f3 s) = s3"
          using True
          by (simp add: loadDump_def e g r1 r2 snd_catch_handleError Let_def mm sv
              split: sum.splits)
        with m3 mm gt show ?thesis by auto
      qed
    qed
  qed
qed

text \<open>
  The two parts of C3 that hold for every number: \<^verbatim>\<open>loadDump\<close> writes the
  metadata store only when the maximum \<^verbatim>\<open>last_modified\<close> of the given records is a
  number greater than the stored value (\<^verbatim>\<open>null\<close> and a missing entry read as \<open>0\<close>), and
  leaves it unchanged when every \<^verbatim>\<open>last_modified\<close> is at most the stored value.
\<close>

lemma loadDump_writes_only_when_greater:
  "(meta (snd (loadDump toString records f1 f2 f3 s)) \<noteq> meta s \<longrightarrow>
      (\<exists>m. Math_max (map last_modified records) = Finite m \<and>
           m > to_number (stored_lastModified s))) \<and>
   ((\<forall>r \<in> set records. \<forall>m. last_modified r = Some m \<longrightarrow> m \<le> to_number (stored_lastModified s))
      \<longrightarrow> meta (snd (loadDump toString records f1 f2 f3 s)) = meta s)"
proof (intro conjI impI)
  let ?s' = "snd (loadDump toString records f1 f2 f3 s)"
  note d = loadDump_meta [of toString records f1 f2 f3 s]
  show "\<exists>m. Math_max (map last_modified records) = Finite m \<and>
           m > to_number (stored_lastModified s)"
    if "meta ?s' \<noteq> meta s"
    using d that by blast
  show "meta ?s' = meta s"
    if le: "\<forall>r \<in> set records. \<forall>m. last_modified r = Some m \<longrightarrow> m \<le> to_number (stored_lastModified s)"
  proof (rule ccontr)
    assume "meta ?s' \<noteq> meta s"
    with d obtain m where mm: "Math_max (map last_modified records) = Finite m"
      and gt: "m > to_number (stored_lastModified s)"
      by blast
    from Math_max_Finite [OF mm] obtain r where "r \<in> set records" "last_modified r = Some m"
      by auto
    with le gt show False by force
  qed
qed

text \<open>What \<^verbatim>\<open>loadDump\<close> does when the engine reports no error.\<close>

lemma loadDump_NoFault:
  "fst (loadDump toString records NoFault NoFault NoFault s) = Inr records \<and>
   meta (snd (loadDump toString records NoFault NoFault NoFault s))
     = (if greater_than (Math_max (map last_modified records))
            (case meta s ''lastModified'' of None \<Rightarrow> None | Some v \<Rightarrow> or_null v)
        then (meta s)(''lastModified'' \<mapsto>
               or_null (parseInt (jsnum_value (Math_max (map last_modified records)))))
        else meta s)"
proof -
  obtain c' where c': "apply_ops (map Update records) (coll s) = Inr c'"
    using apply_ops_updates by blast
  show ?thesis
    by (simp add: loadDump_def execute_def idb_open_def Let_def transaction_end_def c'
        getLastModified_def saveLastModified_def catch_handleError_def)
qed

lemma stored_after_update:
  "meta s' = (meta s)(''lastModified'' \<mapsto> v) \<Longrightarrow> stored_lastModified s' = v"
  by (simp add: stored_lastModified_def)

text \<open>
  When every \<^verbatim>\<open>last_modified\<close> of the given records is a double below \<open>10^21\<close> in
  magnitude, \<^verbatim>\<open>loadDump\<close> never decreases the stored \<^verbatim>\<open>lastModified\<close> (\<^verbatim>\<open>null\<close> and a
  missing entry read as \<open>0\<close>), whatever the engine does to the three transactions.
\<close>

lemma loadDump_monotonic_below_1e21:
  assumes small: "\<forall>r \<in> set records. \<forall>m. last_modified r = Some m \<longrightarrow>
      \<bar>m\<bar> < 1000000000000000000000 \<and> to_double \<bar>m\<bar> = \<bar>m\<bar>"
  shows "to_number (stored_lastModified s)
     \<le> to_number (stored_lastModified (snd (loadDump toString records f1 f2 f3 s)))"
proof -
  let ?s' = "snd (loadDump toString records f1 f2 f3 s)"
  from loadDump_meta [of toString records f1 f2 f3 s]
  consider "meta ?s' = meta s"
    | m where "Math_max (map last_modified records) = Finite m"
        "m > to_number (stored_lastModified s)"
        "meta ?s' = (meta s)(''lastModified'' \<mapsto> or_null (parseInt (Num m)))"
    by blast
  then show ?thesis
  proof cases
    case 1
    then show ?thesis by (simp add: stored_lastModified_def)
  next
    case 2
    from Math_max_Finite [OF 2(1)] obtain r where "r \<in> set records" "last_modified r = Some m"
      by auto
    with small have "\<bar>m\<bar> < 1000000000000000000000" "to_double \<bar>m\<bar> = \<bar>m\<bar>" by auto
    then have "parseInt (Num m) = Some m" by (rule parseInt_Num)
    with stored_after_update [OF 2(3)] 2(2) show ?thesis
      by (simp add: or_null_def to_number_def)
  qed
qed

lemma loadDump_example:
  "stored_lastModified (snd (loadDump int_to_string [example_record 1, example_record 20]
       NoFault NoFault NoFault example_db)) = Some 120"
proof -
  have m: "meta example_db ''lastModified'' = Some (Some 109)"
    by (simp add: example_db_def)
  have p: "parseInt (Num 120) = Some 120" by code_simp
  from loadDump_NoFault [of int_to_string "[example_record 1, example_record 20]" example_db]
  show ?thesis
    by (simp add: m stored_lastModified_def or_null_def to_number_def p example_record_def)
qed

text \<open>
  C3, at the store whose \<^verbatim>\<open>lastModified\<close> is \<open>109\<close> and one record whose
  \<^verbatim>\<open>last_modified\<close> is \<open>10^21\<close>: the maximum is greater than \<open>109\<close>, so
  \<^verbatim>\<open>saveLastModified(1e21)\<close> is called; \<^verbatim>\<open>parseInt\<close> reads the string \<^verbatim>\<open>"1e+21"\<close> of
  that number as \<open>1\<close>, and the stored value goes down from \<open>109\<close> to \<open>1\<close>.
\<close>

theorem loadDump_decreases_at_1e21:
  "stored_lastModified example_db = Some 109 \<and>
   fst (loadDump int_to_string
          [\<lparr>rid = 1, status = None, last_modified = Some 1000000000000000000000, extra = []\<rparr>]
          NoFault NoFault NoFault example_db)
     = Inr [\<lparr>rid = 1, status = None, last_modified = Some 1000000000000000000000, extra = []\<rparr>] \<and>
   stored_lastModified (snd (loadDump int_to_string
          [\<lparr>rid = 1, status = None, last_modified = Some 1000000000000000000000, extra = []\<rparr>]
          NoFault NoFault NoFault example_db))
     = Some 1"
proof -
  have m: "meta example_db ''lastModified'' = Some (Some 109)"
    by (simp add: example_db_def)
  from loadDump_NoFault [of int_to_string
      "[\<lparr>rid = 1, status = None, last_modified = Some 1000000000000000000000, extra = []\<rparr>]"
      example_db]
  show ?thesis
    by (simp add: m stored_lastModified_def or_null_def to_number_def parseInt_1e21)
qed

section \<open>Errors of the engine\<close>








section \<open>The merge-join when the values are sorted in key order\<close>

lemma in_loop_None:
  "in_loop key sv i = None \<Longrightarrow> i < length sv \<and> (\<forall>j. i \<le> j \<and> j < length sv \<longrightarrow> sv ! j < key)"
proof (induction key sv i rule: in_loop.induct)
  case (1 key sv i)
  from "1.prems" have i: "i < length sv" and gt: "sv ! i < key"
    by (subst (asm) in_loop.simps, auto simp: nth_opt_def split: if_splits)+
  show ?case
  proof (cases "Suc i = length sv")
    case True
    then have "j = i" if "i \<le> j" "j < length sv" for j
      using that by linarith
    with i gt show ?thesis by auto
  next
    case False
    with "1.prems" i gt have "in_loop key sv (Suc i) = None"
      by (subst (asm) in_loop.simps) (simp add: nth_opt_def)
    from "1.IH" [OF _ _ False this] i gt
    have "\<forall>j. Suc i \<le> j \<and> j < length sv \<longrightarrow> sv ! j < key"
      by (simp add: nth_opt_def)
    with i gt show ?thesis
      by (metis Suc_leI le_neq_implies_less)
  qed
qed

lemma in_loop_Some:
  "in_loop key sv i = Some j \<Longrightarrow>
   i \<le> j \<and> (\<forall>l. i \<le> l \<and> l < j \<longrightarrow> sv ! l < key) \<and>
   (j < length sv \<longrightarrow> \<not> sv ! j < key) \<and> (length sv \<le> j \<longrightarrow> j = i)"
proof (induction key sv i rule: in_loop.induct)
  case (1 key sv i)
  show ?case
  proof (cases "i < length sv \<and> sv ! i < key")
    case False
    with "1.prems" have "j = i"
      by (subst (asm) in_loop.simps) (auto simp: nth_opt_def split: if_splits)
    with False show ?thesis by auto
  next
    case True
    then have i: "i < length sv" and gt: "sv ! i < key" by auto
    with "1.prems" have ne: "Suc i \<noteq> length sv" and rec: "in_loop key sv (Suc i) = Some j"
      by (subst (asm) in_loop.simps, auto simp: nth_opt_def split: if_splits)+
    from "1.IH" [OF _ _ ne rec] i gt
    have ih: "Suc i \<le> j" "\<forall>l. Suc i \<le> l \<and> l < j \<longrightarrow> sv ! l < key"
      "j < length sv \<longrightarrow> \<not> sv ! j < key" "length sv \<le> j \<longrightarrow> j = Suc i"
      by (simp_all add: nth_opt_def)
    from i ne ih(4) ih(1) have "j < length sv" by linarith
    moreover have "\<forall>l. i \<le> l \<and> l < j \<longrightarrow> sv ! l < key"
      using ih(2) gt by (metis Suc_leI le_neq_implies_less)
    ultimately show ?thesis using ih by auto
  qed
qed

text \<open>
  When the handler calls \<^verbatim>\<open>cursor.continue(sortedValues[i])\<close>, the key of the cursor is
  below that value, so the engine never answers with a \<^verbatim>\<open>DataError\<close>.
\<close>

lemma in_handler_seeks_forward:
  "in_loop key sv 0 = Some i \<Longrightarrow> nth_opt sv i = Some t \<Longrightarrow> key \<noteq> t \<Longrightarrow> key < t"
  using in_loop_Some [of key sv 0 i] by (auto simp: nth_opt_def split: if_splits)

lemma filter_dropWhile_skip:
  "(\<And>e. e \<in> set (takeWhile Q xs) \<Longrightarrow> \<not> P e) \<Longrightarrow> filter P (dropWhile Q xs) = filter P xs"
proof -
  assume a: "\<And>e. e \<in> set (takeWhile Q xs) \<Longrightarrow> \<not> P e"
  have "filter P xs = filter P (takeWhile Q xs @ dropWhile Q xs)" by simp
  also have "\<dots> = filter P (takeWhile Q xs) @ filter P (dropWhile Q xs)" by (rule filter_append)
  also have "filter P (takeWhile Q xs) = []" using a by (simp add: filter_empty_conv)
  finally show ?thesis by simp
qed

lemma sorted_map_fst_dropWhile:
  "sorted (map fst xs) \<Longrightarrow> sorted (map fst (dropWhile Q xs))"
proof -
  assume "sorted (map fst xs)"
  then have "sorted (map fst (takeWhile Q xs @ dropWhile Q xs))" by simp
  then show ?thesis unfolding map_append sorted_append by blast
qed

lemma sorted_values_from:
  "sorted sv \<Longrightarrow> j < length sv \<Longrightarrow> j \<le> l \<Longrightarrow> l < length sv \<Longrightarrow> sv ! j \<le> sv ! l"
  by (simp add: sorted_iff_nth_mono)

text \<open>
  Over values sorted in the key order of the cursor, the handler collects exactly the
  entries of the cursor whose key is one of the values, in the order of the cursor.
\<close>

lemma in_handler_sorted:
  "sorted sv \<Longrightarrow> sorted (map fst cursor) \<Longrightarrow>
   in_handler sv results cursor = results @ map snd (filter (\<lambda>e. fst e \<in> set sv) cursor)"
proof (induction sv results cursor rule: in_handler.induct)
  case (1 sv results)
  show ?case by simp
next
  case (2 sv results key v rest)
  from "2.prems"(2) have rest_sorted: "sorted (map fst rest)"
    and rest_ge: "\<And>e. e \<in> set rest \<Longrightarrow> key \<le> fst e"
    by auto
  show ?case
  proof (cases "in_loop key sv 0")
    case None
    from in_loop_None [OF None] have below: "\<And>x. x \<in> set sv \<Longrightarrow> x < key"
      by (auto simp: in_set_conv_nth)
    have "filter (\<lambda>e. fst e \<in> set sv) ((key, v) # rest) = []"
      using below rest_ge by (fastforce simp: filter_empty_conv)
    with None show ?thesis by simp
  next
    case (Some i)
    note loop = in_loop_Some [OF Some]
    show ?thesis
    proof (cases "nth_opt sv i")
      case None
      with loop have "sv = []" by (auto simp: nth_opt_def split: if_splits)
      with Some None "2.IH"(1) [OF Some None "2.prems"(1) rest_sorted] show ?thesis
        by simp
    next
      case t: (Some t)
      then have i: "i < length sv" and ti: "t = sv ! i"
        by (auto simp: nth_opt_def split: if_splits)
      show ?thesis
      proof (cases "key = t")
        case True
        with i ti have "key \<in> set sv" by simp
        with Some t True "2.IH"(2) [OF Some t True "2.prems"(1) rest_sorted] show ?thesis
          by simp
      next
        case False
        with loop i ti have lt: "key < t" by auto
        have out: "x \<notin> set sv" if "key \<le> x" "x < t" for x
        proof
          assume "x \<in> set sv"
          then obtain l where l: "l < length sv" "sv ! l = x" by (auto simp: in_set_conv_nth)
          show False
          proof (cases "l < i")
            case True
            with loop l that show False by auto
          next
            case False
            then have "sv ! i \<le> sv ! l"
              using sorted_values_from [OF "2.prems"(1) i _ l(1)] by simp
            with l ti that show False by simp
          qed
        qed
        have skipped: "\<not> fst e \<in> set sv" if "e \<in> set (takeWhile (\<lambda>e. fst e < t) rest)" for e
        proof -
          from that have "e \<in> set rest" "fst e < t"
            by (auto dest: set_takeWhileD)
          with rest_ge out show ?thesis by blast
        qed
        have "in_handler sv results (cursor_continue_to t rest)
            = results @ map snd (filter (\<lambda>e. fst e \<in> set sv) (cursor_continue_to t rest))"
          using "2.IH"(3) [OF Some t False "2.prems"(1)] rest_sorted
          by (simp add: cursor_continue_to_def sorted_map_fst_dropWhile)
        also have "filter (\<lambda>e. fst e \<in> set sv) (cursor_continue_to t rest)
            = filter (\<lambda>e. fst e \<in> set sv) rest"
          unfolding cursor_continue_to_def using skipped by (rule filter_dropWhile_skip)
        finally show ?thesis
          using Some t False out [of key] lt by simp
      qed
    qed
  qed
qed

lemma set_js_sort: "set (js_sort toString values) = set values"
  by (simp add: js_sort_def)

lemma cursorHandlers_in_key_order:
  "sorted (js_sort toString values) \<Longrightarrow> sorted (map fst cursor) \<Longrightarrow>
   cursorHandlers_in toString values cursor
     = map snd (filter (\<lambda>e. fst e \<in> set values) cursor)"
  by (simp add: cursorHandlers_in_def in_handler_sorted set_js_sort)

lemma sorted_js_sort_strings: "sorted (js_sort (\<lambda>s. s) (values :: string list))"
  using sorted_sort_key [of "\<lambda>s. s" "values"] by (simp add: js_sort_def)

lemma reduceRecords_no_filter: "reduceRecords [] None records = records"
  by (simp add: reduceRecords_def)

text \<open>
  With string ids, where \<^verbatim>\<open>sort()\<close> is the key order, \<^verbatim>\<open>list\<close> with the filter
  \<^verbatim>\<open>{id: V}\<close> resolves with exactly the stored records whose id is in \<open>V\<close>, in key
  order, whatever the order of \<open>V\<close>.
\<close>

lemma list_in_string_ids:
  "sorted (map fst (coll s)) \<Longrightarrow>
   fst (list (\<lambda>s. s) [FId (Array V)] None NoFault s)
     = Inr (map snd (filter (\<lambda>e. fst e \<in> set V) (coll s)))"
  by (simp add: list_def Let_def idb_open_def catch_handleError_def findIndexedField_def
      INDEXED_FIELDS_def filters_lookup_def property_key_def createListRequest_def
      index_request_def index_id_def cursorHandlers_in_key_order sorted_js_sort_strings
      reduceRecords_no_filter)

lemma list_example_strings:
  "fst (list (\<lambda>s. s) [FId (Array [''9'', ''10'', ''7''])] None NoFault
     \<lparr>db_open = False,
      coll = [(''10'', \<lparr>rid = ''10'', status = None, last_modified = None, extra = []\<rparr>),
              (''9'', \<lparr>rid = ''9'', status = None, last_modified = None, extra = []\<rparr>)],
      meta = Map.empty\<rparr>)
   = Inr [\<lparr>rid = ''10'', status = None, last_modified = None, extra = []\<rparr>,
          \<lparr>rid = ''9'', status = None, last_modified = None, extra = []\<rparr>]"
  by code_simp

lemma in_handler_subset:
  "set (in_handler sv results cursor)
     \<subseteq> set results \<union> snd ` {e \<in> set cursor. fst e \<in> set sv}"
proof (induction sv results cursor rule: in_handler.induct)
  case (1 sv results)
  show ?case by simp
next
  case (2 sv results key v rest)
  show ?case
  proof (cases "in_loop key sv 0")
    case None
    then show ?thesis by auto
  next
    case (Some i)
    show ?thesis
    proof (cases "nth_opt sv i")
      case None
      with Some "2.IH"(1) [OF Some None] show ?thesis by auto
    next
      case t: (Some t)
      then have tin: "t \<in> set sv" by (auto simp: nth_opt_def split: if_splits)
      show ?thesis
      proof (cases "key = t")
        case True
        have "(key, v) \<in> {e \<in> set ((key, v) # rest). fst e \<in> set sv}"
          using True tin by simp
        then have "v \<in> snd ` {e \<in> set ((key, v) # rest). fst e \<in> set sv}"
          by (rule image_eqI [rotated]) simp
        moreover have "snd ` {e \<in> set rest. fst e \<in> set sv}
            \<subseteq> snd ` {e \<in> set ((key, v) # rest). fst e \<in> set sv}"
          by auto
        ultimately show ?thesis
          using Some t True "2.IH"(2) [OF Some t True] by (simp add: subset_iff) blast
      next
        case False
        have "set (cursor_continue_to t rest) \<subseteq> set rest"
          by (auto simp: cursor_continue_to_def dest: set_dropWhileD)
        with Some t False "2.IH"(3) [OF Some t False] show ?thesis by auto
      qed
    qed
  qed
qed

lemma preloaded_of_snoc:
  "preloaded_of toString (records @ [r]) = object_set toString (preloaded_of toString records) r"
  by (simp add: preloaded_of_def)

lemma own_preloaded_of:
  "own (preloaded_of toString records) key = Some r \<Longrightarrow>
   r \<in> set records \<and> toString (rid r) = key"
proof (induction records rule: rev_induct)
  case Nil
  then show ?case by (simp add: preloaded_of_def)
next
  case (snoc x records)
  then show ?case
    by (auto simp: preloaded_of_snoc object_set_def Let_def split: if_splits)
qed

lemma prototype_preloaded_of:
  "prototype (preloaded_of toString records) = Some p \<Longrightarrow>
   p \<in> set records \<and> toString (rid p) = ''__proto__''"
proof (induction records rule: rev_induct)
  case Nil
  then show ?case by (simp add: preloaded_of_def)
next
  case (snoc x records)
  then show ?case
    by (auto simp: preloaded_of_snoc object_set_def Let_def split: if_splits)
qed

lemma preloaded_ids:
  assumes keyed: "list_all (\<lambda>e. rid (snd e) = fst e) store"
    and r: "r \<in> set (cursorHandlers_in toString preload (index_id store))"
  shows "rid r \<in> set preload"
proof -
  from r in_handler_subset [of "js_sort toString preload" "[]" store]
  obtain e where e: "e \<in> set store" "fst e \<in> set preload" "r = snd e"
    by (auto simp: cursorHandlers_in_def index_id_def set_js_sort)
  with keyed have "rid r = fst e" by (auto simp: list_all_iff)
  with e show ?thesis by simp
qed

text \<open>
  The half of the preload contract about ids outside the preload list, for every kind
  of id: when the entries of the store are keyed by the id of their record,
  \<^verbatim>\<open>get(id)\<close> of the proxy is \<^verbatim>\<open>undefined\<close> for an id whose string is not the string of a
  preloaded id, provided that string is not the name of a property of
  \<^verbatim>\<open>Object.prototype\<close> and \<^verbatim>\<open>__proto__\<close> is not preloaded.
\<close>

lemma proxy_get_outside_preload:
  assumes keyed: "list_all (\<lambda>e. rid (snd e) = fst e) store"
    and out: "toString k \<notin> toString ` set preload"
    and plain: "toString k \<notin> set Object_prototype_names"
    and no_proto: "''__proto__'' \<notin> toString ` set preload"
  shows "proxy_get toString
           (preloaded_of toString (cursorHandlers_in toString preload (index_id store))) k
         = GotUndefined"
proof -
  let ?records = "cursorHandlers_in toString preload (index_id store)"
  have "own (preloaded_of toString ?records) (toString k) = None"
  proof (rule ccontr)
    assume "own (preloaded_of toString ?records) (toString k) \<noteq> None"
    then obtain r where "own (preloaded_of toString ?records) (toString k) = Some r" by auto
    from own_preloaded_of [OF this] have "r \<in> set ?records" "toString (rid r) = toString k"
      by simp_all
    with preloaded_ids [OF keyed, of r toString preload] out show False
      by (metis image_eqI)
  qed
  moreover have "prototype (preloaded_of toString ?records) = None"
  proof (rule ccontr)
    assume "prototype (preloaded_of toString ?records) \<noteq> None"
    then obtain p where "prototype (preloaded_of toString ?records) = Some p" by auto
    from prototype_preloaded_of [OF this]
    have "p \<in> set ?records" "toString (rid p) = ''__proto__''"
      by simp_all
    with preloaded_ids [OF keyed, of p toString preload] no_proto show False
      by (metis image_eqI)
  qed
  ultimately show ?thesis
    using plain by (simp add: proxy_get_def Let_def)
qed

text \<open>
  Without those provisos the contract fails: \<^verbatim>\<open>preloaded\<close> is a plain object, so with
  an empty preload list \<^verbatim>\<open>get("constructor")\<close> is a function of \<^verbatim>\<open>Object.prototype\<close>,
  not \<^verbatim>\<open>undefined\<close>, whatever the store holds.
\<close>

lemma proxy_get_inherited_property:
  "proxy_get (\<lambda>s. s)
     (preloaded_of (\<lambda>s. s) (cursorHandlers_in (\<lambda>s. s) [] (index_id store))) ''constructor''
   = GotOther"
proof -
  have "set (cursorHandlers_in (\<lambda>s. s) [] (index_id store)) \<subseteq> {}"
    using in_handler_subset [of "js_sort (\<lambda>s. s) []" "[]" store]
    by (simp add: cursorHandlers_in_def index_id_def js_sort_def)
  then have "cursorHandlers_in (\<lambda>s. s) [] (index_id store) = []" by simp
  then show ?thesis
    by (simp add: preloaded_of_def proxy_get_def Let_def Object_prototype_names_def)
qed

section \<open>The invariant of the store\<close>

lemma store_ok_empty: "store_ok []"
  by (simp add: store_ok_def)

lemma set_store_put: "set (store_put r s) \<subseteq> insert (rid r, r) (set s)"
  by (induction r s rule: store_put.induct) auto

lemma store_ok_put: "store_ok s \<Longrightarrow> store_ok (store_put r s)"
proof (induction r s rule: store_put.induct)
  case (1 r)
  show ?case by (simp add: store_ok_def)
next
  case (2 r k x s)
  from "2.prems" have tail: "store_ok s" and above: "\<forall>e \<in> set s. k < fst e" and kx: "rid x = k"
    by (auto simp: store_ok_def)
  show ?case
  proof (cases "rid r < k")
    case True
    with "2.prems" show ?thesis by (auto simp: store_ok_def)
  next
    case False
    show ?thesis
    proof (cases "rid r = k")
      case True
      with "2.prems" show ?thesis by (auto simp: store_ok_def)
    next
      case neq: False
      with False have gt: "k < rid r" by simp
      from "2.IH" [OF False neq tail] have ok: "store_ok (store_put r s)" .
      have "\<forall>e \<in> set (store_put r s). k < fst e"
        using above gt set_store_put [of r s] by auto
      with ok kx False neq show ?thesis by (simp add: store_ok_def)
    qed
  qed
qed

lemma store_ok_delete: "store_ok s \<Longrightarrow> store_ok (store_delete k s)"
  by (simp add: store_ok_def store_delete_def list_all_iff sorted_wrt_filter
      flip: filter_map comp_def)
     (simp add: filter_map comp_def sorted_wrt_filter sorted_wrt_map)

lemma store_ok_apply_op: "store_ok s \<Longrightarrow> apply_op x s = Inr s' \<Longrightarrow> store_ok s'"
  by (cases x) (auto simp: store_add_def store_ok_put store_ok_delete split: if_splits)

lemma store_ok_apply_ops: "store_ok s \<Longrightarrow> apply_ops ops s = Inr s' \<Longrightarrow> store_ok s'"
proof (induction ops arbitrary: s)
  case Nil
  then show ?case by simp
next
  case (Cons x ops)
  then obtain s1 where s1: "apply_op x s = Inr s1" "apply_ops ops s1 = Inr s'"
    by (auto split: sum.splits)
  from store_ok_apply_op [OF Cons.prems(1) s1(1)] Cons.IH s1(2) show ?case by blast
qed

text \<open>Every transaction of \<^verbatim>\<open>execute\<close> and \<^verbatim>\<open>clear\<close> keeps the invariant of the store.\<close>

lemma store_ok_execute:
  "store_ok (coll s) \<Longrightarrow> store_ok (coll (snd (execute toString callback preload f s)))"
proof -
  assume ok: "store_ok (coll s)"
  obtain r s1 where o: "idb_open f s = (r, s1)" by (cases "idb_open f s")
  from meta_idb_open [OF o] ok have ok1: "store_ok (coll s1)" by simp
  obtain ops out where c: "callback (proxy_get toString (preloaded_of toString
      (cursorHandlers_in toString preload (index_id (coll s1))))) = (ops, out)"
    by (cases "callback (proxy_get toString (preloaded_of toString
      (cursorHandlers_in toString preload (index_id (coll s1)))))")
  have "store_ok c'" if "transaction_end f ops (coll s1) = Inr c'" for c'
    using that store_ok_apply_ops [OF ok1]
    by (auto simp: transaction_end_def split: sum.splits fault.splits)
  with ok1 show ?thesis
    by (simp add: execute_def o c Let_def split: sum.splits outcome.splits)
qed

lemma store_ok_clear: "store_ok (coll (snd (clear f s)))" if "store_ok (coll s)"
proof -
  obtain r s1 where o: "idb_open f s = (r, s1)" by (cases "idb_open f s")
  from meta_idb_open [OF o] that have "store_ok (coll s1)" by simp
  then show ?thesis
    by (simp add: clear_def o snd_catch_handleError store_ok_empty
        split: sum.splits fault.splits)
qed

section \<open>The preload contract with string ids, and two scenarios\<close>

lemma map_of_filter_keys:
  "map_of (filter (\<lambda>e. fst e \<in> A) xs) k = (if k \<in> A then map_of xs k else None)"
  by (induction xs) auto

lemma own_preloaded_entries:
  "list_all (\<lambda>e. rid (snd e) = fst e) xs \<Longrightarrow> distinct (map fst xs) \<Longrightarrow>
   key \<noteq> ''__proto__'' \<Longrightarrow>
   own (preloaded_of (\<lambda>s. s) (map snd xs)) key = map_of xs key"
proof (induction xs rule: rev_induct)
  case Nil
  show ?case by (simp add: preloaded_of_def)
next
  case (snoc e xs)
  then have ih: "own (preloaded_of (\<lambda>s. s) (map snd xs)) key = map_of xs key"
    and keyed: "rid (snd e) = fst e" and fresh: "fst e \<notin> fst ` set xs"
    by auto
  from fresh have none: "map_of xs (fst e) = None"
    by (simp add: map_of_eq_None_iff)
  have "map_of (xs @ [e]) key = ((map_of xs)(fst e \<mapsto> snd e)) key"
    using none by (cases e) (auto simp: map_add_def split: option.splits)
  with snoc.prems(3) show ?case
    by (simp add: preloaded_of_snoc object_set_def Let_def ih keyed)
qed

lemma store_ok_sorted: "store_ok s \<Longrightarrow> sorted (map fst s) \<and> distinct (map fst s)"
  by (simp add: store_ok_def strict_sorted_iff)

text \<open>
  With string ids and a store that satisfies its invariant, \<^verbatim>\<open>get(id)\<close> of the proxy
  is the record stored under \<open>id\<close> at the start of the transaction when \<open>id\<close> is in
  the preload list and a record is stored under it (the id \<^verbatim>\<open>__proto__\<close> set aside).
\<close>

lemma proxy_get_string_ids:
  assumes ok: "store_ok store"
    and pre: "k \<in> set preload"
    and stored: "store_get k store = Some r"
    and plain: "k \<noteq> ''__proto__''"
  shows "proxy_get (\<lambda>s. s)
           (preloaded_of (\<lambda>s. s) (cursorHandlers_in (\<lambda>s. s) preload (index_id store))) k
         = GotRecord r"
proof -
  let ?hit = "filter (\<lambda>e. fst e \<in> set preload) store"
  from store_ok_sorted [OF ok] have s: "sorted (map fst store)" and d: "distinct (map fst store)"
    by simp_all
  have c: "cursorHandlers_in (\<lambda>s. s) preload (index_id store) = map snd ?hit"
    using s by (simp add: index_id_def cursorHandlers_in_key_order sorted_js_sort_strings)
  have "list_all (\<lambda>e. rid (snd e) = fst e) ?hit"
    using ok by (simp add: store_ok_def list_all_iff)
  moreover have "distinct (map fst ?hit)"
    using d by (simp add: distinct_map_filter)
  ultimately have "own (preloaded_of (\<lambda>s. s) (map snd ?hit)) k = map_of ?hit k"
    using plain by (rule own_preloaded_entries)
  with pre stored show ?thesis
    by (simp add: proxy_get_def Let_def c store_get_def map_of_filter_keys)
qed

text \<open>Scenario A, with a string id.\<close>

lemma execute_create_then_get:
  "fst (get ''1'' NoFault
     (snd (execute (\<lambda>s. s)
        (\<lambda>get. ([Create \<lparr>rid = ''1'', status = None, last_modified = None,
                           extra = [(''title'', ''foo'')]\<rparr>], Return ()))
        [] NoFault \<lparr>db_open = False, coll = [], meta = Map.empty\<rparr>)))
   = Inr (Some \<lparr>rid = ''1'', status = None, last_modified = None,
                 extra = [(''title'', ''foo'')]\<rparr>)"
  by code_simp

text \<open>Scenario B: ids \<open>1\<close> to \<open>5\<close>, filter \<^verbatim>\<open>{id: [3, 5, 9]}\<close>.\<close>

lemma list_scenario_B:
  "fst (list int_to_string [FId (Array [3, 5, 9])] None NoFault
     \<lparr>db_open = False, coll = map (\<lambda>i. (i, example_record i)) [1, 2, 3, 4, 5],
      meta = Map.empty\<rparr>)
   = Inr [example_record 3, example_record 5]"
  by code_simp


end
